theory Spec2Isabelle
  imports Complex_Main "HOL-Library.Sublist"
begin

text \<open>
  A shallow embedding of \<^verbatim>\<open>src/lib/backoff.ts\<close>, \<^verbatim>\<open>src/lib/streaming/streams.ts\<close> and
  the error classes they use. Each function of the source is a function here; what the
  source does to the outside world (calls of \<^verbatim>\<open>fetch\<close>, sleeps, hooks, calls on the
  stream controller) is returned as a list of events in the order of the calls, and a
  \<^verbatim>\<open>throw\<close> is a value. \<^verbatim>\<open>fetch\<close>, \<^verbatim>\<open>JSON.parse\<close> and the consumer of the output
  stream are parameters of the model.
\<close>

section \<open>JavaScript values read by the two modules\<close>

text \<open>
  The values that \<^verbatim>\<open>JSON.parse\<close> and \<^verbatim>\<open>response.json()\<close> hand to the code.
  An object is the association list of its own properties (\<open>map_of\<close> reads the
  first binding of a key). A number is a rational: only its being zero is ever
  inspected. The value \<^verbatim>\<open>undefined\<close> is \<open>None\<close> of \<open>json option\<close>.
\<close>

datatype json =
    JNull
  | JBool bool
  | JNum rat
  | JStr string
  | JArr "json list"
  | JObj "(string \<times> json) list"

text \<open>
  \<^verbatim>\<open>v.k\<close> on a value that is neither \<^verbatim>\<open>null\<close> nor \<^verbatim>\<open>undefined\<close>, for the keys
  the code reads (\<^verbatim>\<open>type\<close>, \<^verbatim>\<open>error\<close>, \<^verbatim>\<open>code\<close>, \<^verbatim>\<open>choices\<close>, \<^verbatim>\<open>finish_reason\<close>,
  \<^verbatim>\<open>message\<close>): none of them is a property of a primitive's or an array's prototype.
\<close>

fun get_prop :: "json \<Rightarrow> string \<Rightarrow> json option" where
  "get_prop (JObj kvs) k = map_of kvs k"
| "get_prop _ k = None"

text \<open>\<^verbatim>\<open>v?.k\<close>: \<^verbatim>\<open>undefined\<close> when \<^verbatim>\<open>v\<close> is \<^verbatim>\<open>null\<close> or \<^verbatim>\<open>undefined\<close>.\<close>

fun opt_prop :: "json option \<Rightarrow> string \<Rightarrow> json option" where
  "opt_prop None k = None"
| "opt_prop (Some JNull) k = None"
| "opt_prop (Some v) k = get_prop v k"

fun truthy :: "json option \<Rightarrow> bool" where
  "truthy None = False"
| "truthy (Some JNull) = False"
| "truthy (Some (JBool b)) = b"
| "truthy (Some (JNum n)) = (n \<noteq> 0)"
| "truthy (Some (JStr s)) = (s \<noteq> [])"
| "truthy (Some (JArr xs)) = True"
| "truthy (Some (JObj kvs)) = True"

section \<open>backoff.ts\<close>

text \<open>
  Errors of \<^verbatim>\<open>backoff.ts\<close> are told apart by their \<^verbatim>\<open>message\<close> only.
\<close>

datatype js_error = Error string | TypeError string

fun error_message :: "js_error \<Rightarrow> string" where
  "error_message (Error m) = m"
| "error_message (TypeError m) = m"

text \<open>
  A response: its \<^verbatim>\<open>ok\<close> flag and what \<^verbatim>\<open>await response.json()\<close> gives
  (\<open>Inl\<close> when it rejects).
\<close>

record response =
  ok :: bool
  json_body :: "js_error + json"

text \<open>
  \<^verbatim>\<open>fetch\<close> is an effectful capability: \<open>fetch n\<close> is the outcome of the call made
  after \<open>n\<close> earlier calls (\<open>Inl\<close> when the call rejects). The hook returns
  \<open>Some e\<close> when it throws \<open>e\<close>.
\<close>

text \<open>
  The retry limit and the delay are integers: the loop index counts up by 1 from 0, and
  doubling an integer delay is exact.
\<close>

type_synonym Fetch = "nat \<Rightarrow> js_error + response"
type_synonym RateLimitHook = "nat \<Rightarrow> int \<Rightarrow> js_error option"

record BackoffOptions =
  maxRetries :: "int option"
  delay :: "int option"
  onRateLimitReached :: "RateLimitHook option"

text \<open>What the function does to the outside world, in order.\<close>

datatype backoff_event =
    FetchCall nat
  | ConsoleLog int
  | HookCall nat int
  | Sleep int

text \<open>
  The body of the \<^verbatim>\<open>try\<close> block after \<^verbatim>\<open>fetch\<close> has returned (lines 38-45):
  \<^verbatim>\<open>errorData.type\<close> throws a TypeError on \<^verbatim>\<open>null\<close>.
\<close>

definition check_response :: "response \<Rightarrow> js_error + response" where
  "check_response r =
     (if \<not> ok r then
        (case json_body r of
           Inl e \<Rightarrow> Inl e
         | Inr JNull \<Rightarrow> Inl (TypeError ''Cannot read properties of null (reading 'type')'')
         | Inr errorData \<Rightarrow>
             if get_prop errorData ''type'' = Some (JStr ''RATE_LIMIT_REACHED'')
                \<or> opt_prop (get_prop errorData ''error'') ''code'' = Some (JStr ''429'')
             then Inl (Error ''RATE_LIMIT_REACHED'')
             else Inr r)
      else Inr r)"

definition try_fetch :: "Fetch \<Rightarrow> nat \<Rightarrow> js_error + response" where
  "try_fetch fetch i = (case fetch i of Inl e \<Rightarrow> Inl e | Inr r \<Rightarrow> check_response r)"

text \<open>
  The \<^verbatim>\<open>for\<close> loop of lines 34-61 from index \<open>i\<close> with the current delay, and the
  \<^verbatim>\<open>throw\<close> of line 63 behind it. The result is the trace of events and the value
  returned (\<open>Inr\<close>) or the error thrown (\<open>Inl\<close>).
\<close>

function backoff_loop ::
  "Fetch \<Rightarrow> RateLimitHook \<Rightarrow> int \<Rightarrow> nat \<Rightarrow> int \<Rightarrow> backoff_event list \<times> (js_error + response)"
where
  "backoff_loop fetch hook maxR i d =
     (if int i \<le> maxR then
        (case try_fetch fetch i of
           Inr r \<Rightarrow> ([FetchCall i], Inr r)
         | Inl err \<Rightarrow>
             if error_message err = ''RATE_LIMIT_REACHED'' \<and> int i < maxR then
               (case hook i d of
                  Some e \<Rightarrow> ([FetchCall i, ConsoleLog d, HookCall i d], Inl e)
                | None \<Rightarrow>
                    (let (tr, res) = backoff_loop fetch hook maxR (Suc i) (d * 2)
                     in ([FetchCall i, ConsoleLog d, HookCall i d, Sleep d] @ tr, res)))
             else ([FetchCall i], Inl err))
      else ([], Inl (Error ''Max retries reached.'')))"
  by pat_completeness auto
termination
  by (relation "measure (\<lambda>(fetch, hook, maxR, i, d). nat (maxR + 1 - int i))") auto

text \<open>The destructuring defaults of lines 28-32.\<close>

definition maxRetries_of :: "BackoffOptions \<Rightarrow> int" where
  "maxRetries_of backoffOptions = (case maxRetries backoffOptions of None \<Rightarrow> 7 | Some m \<Rightarrow> m)"

definition delay_of :: "BackoffOptions \<Rightarrow> int" where
  "delay_of backoffOptions = (case delay backoffOptions of None \<Rightarrow> 500 | Some d \<Rightarrow> d)"

definition hook_of :: "BackoffOptions \<Rightarrow> RateLimitHook" where
  "hook_of backoffOptions =
     (case onRateLimitReached backoffOptions of None \<Rightarrow> (\<lambda>retries d. None) | Some h \<Rightarrow> h)"

definition fetchWithBackoff ::
  "Fetch option \<Rightarrow> BackoffOptions \<Rightarrow> backoff_event list \<times> (js_error + response)"
where
  "fetchWithBackoff fetch backoffOptions =
     (case fetch of
        None \<Rightarrow> ([], Inl (Error ''No fetch implementation found.''))
      | Some f \<Rightarrow>
          backoff_loop f (hook_of backoffOptions) (maxRetries_of backoffOptions) 0
            (delay_of backoffOptions))"

text \<open>Observations on a trace.\<close>

fun fetch_calls :: "backoff_event list \<Rightarrow> nat" where
  "fetch_calls [] = 0"
| "fetch_calls (FetchCall i # es) = Suc (fetch_calls es)"
| "fetch_calls (_ # es) = fetch_calls es"

fun hook_calls :: "backoff_event list \<Rightarrow> nat" where
  "hook_calls [] = 0"
| "hook_calls (HookCall i d # es) = Suc (hook_calls es)"
| "hook_calls (_ # es) = hook_calls es"

fun sleeps :: "backoff_event list \<Rightarrow> int list" where
  "sleeps [] = []"
| "sleeps (Sleep d # es) = d # sleeps es"
| "sleeps (_ # es) = sleeps es"

text \<open>A call whose outcome the \<^verbatim>\<open>catch\<close> block treats as the rate-limit condition.\<close>

definition rate_limited :: "js_error + response \<Rightarrow> bool" where
  "rate_limited out =
     (case (case out of Inl e \<Rightarrow> Inl e | Inr r \<Rightarrow> check_response r) of
        Inl e \<Rightarrow> error_message e = ''RATE_LIMIT_REACHED''
      | Inr r \<Rightarrow> False)"

text \<open>
  The run of the specification's example: every call answers \<^verbatim>\<open>ok = false\<close> with the
  body \<^verbatim>\<open>{"error":{"code":"429"}}\<close>, under \<^verbatim>\<open>maxRetries = 2\<close> and \<^verbatim>\<open>delay = 10\<close>.
\<close>

definition body429 :: response where
  "body429 = \<lparr> ok = False, json_body = Inr (JObj [(''error'', JObj [(''code'', JStr ''429'')])]) \<rparr>"

definition always429 :: Fetch where
  "always429 n = Inr body429"

definition opts_2_10 :: BackoffOptions where
  "opts_2_10 = \<lparr> maxRetries = Some 2, delay = Some 10, onRateLimitReached = None \<rparr>"

text \<open>
  Hooks of a caller: one that returns on every call, one that throws on every call, and
  one that throws when it is called for the second retry.
\<close>

definition quiet_hook :: RateLimitHook where
  "quiet_hook retries d = None"

definition failing_hook :: RateLimitHook where
  "failing_hook retries d = Some (Error ''hook failed'')"

definition failing_second_hook :: RateLimitHook where
  "failing_second_hook retries d = (if retries = 1 then Some (Error ''hook failed'') else None)"

definition opts_hook :: "RateLimitHook \<Rightarrow> BackoffOptions" where
  "opts_hook h = \<lparr> maxRetries = Some 2, delay = Some 10, onRateLimitReached = Some h \<rparr>"

section \<open>The error taxonomy (the unnamed source part)\<close>

datatype OpenAIErrorType = MAX_TOKENS | UNKNOWN

fun OpenAIErrors :: "OpenAIErrorType \<Rightarrow> string" where
  "OpenAIErrors MAX_TOKENS = ''Maximum number of tokens reached.''"
| "OpenAIErrors UNKNOWN = ''An unknown error occurred.''"

record OpenAIError =
  type :: OpenAIErrorType
  message :: string

definition new_OpenAIError :: "OpenAIErrorType \<Rightarrow> OpenAIError" where
  "new_OpenAIError t = \<lparr> type = t, message = OpenAIErrors t \<rparr>"

section \<open>streams.ts\<close>

subsection \<open>Options and errors\<close>

datatype StreamMode = Raw | Tokens

text \<open>
  \<open>onDone\<close> tells whether the hook is given; each of its invocations is recorded as
  an effect, and the hook is taken to return normally.
\<close>

record OpenAIStreamOptions =
  mode :: "StreamMode option"
  onDone :: bool

text \<open>
  What \<^verbatim>\<open>EventStream\<close> can throw or hand to \<^verbatim>\<open>controller.error\<close>:
  \<^verbatim>\<open>new Error(parsed.error.message)\<close> (kept with the value it was built from,
  \<open>None\<close> for \<^verbatim>\<open>undefined\<close>), a TypeError of the runtime, and the \<^verbatim>\<open>OpenAIError\<close>.
\<close>

datatype stream_error =
    UpstreamError "json option"
  | RuntimeTypeError
  | Thrown_OpenAIError OpenAIError

subsection \<open>The output stream's default controller\<close>

text \<open>
  The part of the platform's \<^verbatim>\<open>ReadableStreamDefaultController\<close> that the code uses,
  after the Streams standard, for a stream built without a queuing strategy (high-water
  mark 1, every chunk of size 1): the state of the stream, the chunks enqueued and not
  yet read, the number of read requests of the consumer that wait for a chunk, and
  whether \<^verbatim>\<open>close()\<close> has been called.
\<close>

datatype stream_state = Readable | Closed | Errored stream_error

record controller =
  state :: stream_state
  queue :: "string list"
  readRequests :: nat
  closeRequested :: bool

text \<open>\<^verbatim>\<open>controller.desiredSize\<close>: \<^verbatim>\<open>null\<close> (here \<open>None\<close>) once errored, 0 once closed.\<close>

definition desiredSize :: "controller \<Rightarrow> int option" where
  "desiredSize c =
     (case state c of
        Errored e \<Rightarrow> None
      | Closed \<Rightarrow> Some 0
      | Readable \<Rightarrow> Some (1 - int (length (queue c))))"

text \<open>The truthiness of a number or \<^verbatim>\<open>null\<close>, as \<^verbatim>\<open>if (controller.desiredSize)\<close> takes it.\<close>

fun truthy_size :: "int option \<Rightarrow> bool" where
  "truthy_size None = False"
| "truthy_size (Some n) = (n \<noteq> 0)"

definition canCloseOrEnqueue :: "controller \<Rightarrow> bool" where
  "canCloseOrEnqueue c = (\<not> closeRequested c \<and> state c = Readable)"

text \<open>\<^verbatim>\<open>controller.close()\<close>: throws a TypeError unless the stream can be closed.\<close>

definition controller_close :: "controller \<Rightarrow> stream_error + controller" where
  "controller_close c =
     (if canCloseOrEnqueue c then
        Inr (if queue c = []
             then c\<lparr> state := Closed, readRequests := 0, closeRequested := True \<rparr>
             else c\<lparr> closeRequested := True \<rparr>)
      else Inl RuntimeTypeError)"

text \<open>
  \<^verbatim>\<open>controller.enqueue(chunk)\<close>: throws a TypeError unless the stream is readable and
  not closing; the chunk goes to a waiting read request or into the queue.
\<close>

definition controller_enqueue :: "string \<Rightarrow> controller \<Rightarrow> stream_error + controller" where
  "controller_enqueue chunk c =
     (if canCloseOrEnqueue c then
        Inr (if 0 < readRequests c
             then c\<lparr> readRequests := readRequests c - 1 \<rparr>
             else c\<lparr> queue := queue c @ [chunk] \<rparr>)
      else Inl RuntimeTypeError)"

text \<open>
  \<^verbatim>\<open>controller.error(e)\<close>, also what the platform does when \<^verbatim>\<open>start\<close> rejects: nothing
  unless the stream is readable; else the queue is dropped and the stream is errored.
\<close>

definition controller_error :: "stream_error \<Rightarrow> controller \<Rightarrow> controller" where
  "controller_error e c =
     (if state c = Readable
      then c\<lparr> state := Errored e, queue := [], readRequests := 0 \<rparr>
      else c)"

text \<open>The consumer of the output: a \<^verbatim>\<open>read()\<close> of its reader, and a \<^verbatim>\<open>cancel()\<close>.\<close>

definition consumer_read :: "controller \<Rightarrow> controller" where
  "consumer_read c =
     (if state c = Readable then
        (case queue c of
           [] \<Rightarrow> c\<lparr> readRequests := readRequests c + 1 \<rparr>
         | x # q \<Rightarrow>
             if closeRequested c \<and> q = []
             then c\<lparr> state := Closed, queue := q \<rparr>
             else c\<lparr> queue := q \<rparr>)
      else c)"

definition consumer_cancel :: "controller \<Rightarrow> controller" where
  "consumer_cancel c =
     (if state c = Readable
      then c\<lparr> state := Closed, queue := [], readRequests := 0 \<rparr>
      else c)"

subsection \<open>String operations\<close>

text \<open>
  Text is a list of one-byte code units, and a chunk of the source is given as the text
  its incremental decoding adds to the buffer.
\<close>

text \<open>\<^verbatim>\<open>s.indexOf(pat)\<close>, with \<open>None\<close> for -1.\<close>

fun indexOf :: "string \<Rightarrow> string \<Rightarrow> nat option" where
  "indexOf [] pat = (if pat = [] then Some 0 else None)"
| "indexOf (c # cs) pat =
     (if prefix pat (c # cs) then Some 0 else map_option Suc (indexOf cs pat))"

text \<open>\<^verbatim>\<open>s.slice(a, b)\<close> and \<^verbatim>\<open>s.slice(a)\<close> for indices that are not negative.\<close>

definition slice :: "string \<Rightarrow> nat \<Rightarrow> nat \<Rightarrow> string" where
  "slice s a b = take (b - a) (drop a s)"

definition slice_from :: "string \<Rightarrow> nat \<Rightarrow> string" where
  "slice_from s a = drop a s"

text \<open>The white space and line terminators among the one-byte code units.\<close>

definition is_space :: "char \<Rightarrow> bool" where
  "is_space c = (c \<in> set [CHR 0x09, CHR 0x0A, CHR 0x0B, CHR 0x0C, CHR 0x0D, CHR 0x20, CHR 0xA0])"

definition trim :: "string \<Rightarrow> string" where
  "trim s = rev (dropWhile is_space (rev (dropWhile is_space s)))"

definition bufferIsDone :: "string \<Rightarrow> bool" where
  "bufferIsDone buffer = (prefix ''data: [DONE]'' buffer \<or> buffer = ''[DONE]'')"

subsection \<open>The framer\<close>

text \<open>What \<^verbatim>\<open>EventStream\<close> does to the outside world, in order.\<close>

datatype effect =
    Enqueue string
  | Close
  | ControllerError stream_error
  | OnDone

record framer =
  buffer :: string
  ctrl :: controller
  effects :: "effect list"

text \<open>
  How a piece of the body of \<^verbatim>\<open>start\<close> ends: control goes on, the function returns,
  or it throws.
\<close>

datatype flow = Continue | Return | Throw stream_error

definition call_onDone :: "bool \<Rightarrow> framer \<Rightarrow> framer" where
  "call_onDone od s = (if od then s\<lparr> effects := effects s @ [OnDone] \<rparr> else s)"

definition closeController :: "bool \<Rightarrow> framer \<Rightarrow> stream_error option \<times> framer" where
  "closeController od s =
     (if truthy_size (desiredSize (ctrl s)) then
        (case controller_close (ctrl s) of
           Inl e \<Rightarrow> (Some e, s)
         | Inr c \<Rightarrow> (None, call_onDone od (s\<lparr> ctrl := c, effects := effects s @ [Close] \<rparr>)))
      else (None, call_onDone od s))"

text \<open>\<^verbatim>\<open>await closeController(controller, onDone); return;\<close>\<close>

definition close_and_return :: "bool \<Rightarrow> framer \<Rightarrow> flow \<times> framer" where
  "close_and_return od s =
     (case closeController od s of
        (None, s') \<Rightarrow> (Return, s')
      | (Some e, s') \<Rightarrow> (Throw e, s'))"

text \<open>\<^verbatim>\<open>typeof parsed === "object"\<close>, which holds of \<^verbatim>\<open>null\<close> too.\<close>

fun typeof_object :: "json \<Rightarrow> bool" where
  "typeof_object JNull = True"
| "typeof_object (JArr xs) = True"
| "typeof_object (JObj kvs) = True"
| "typeof_object _ = False"

text \<open>
  What \<^verbatim>\<open>for (const choice of choices)\<close> iterates over: the elements of an array, the
  characters of a string; \<open>None\<close> when the value is not iterable (a TypeError).
\<close>

fun iterate :: "json \<Rightarrow> json list option" where
  "iterate (JArr xs) = Some xs"
| "iterate (JStr s) = Some (map (\<lambda>c. JStr [c]) s)"
| "iterate _ = None"

definition finish_reason :: "json \<Rightarrow> json option" where
  "finish_reason choice = opt_prop (Some choice) ''finish_reason''"

text \<open>The loop of lines 106-114: the first choice that ends it, if any.\<close>

datatype choice_scan = ScanStop | ScanLength | ScanNone

fun scan_choices :: "StreamMode \<Rightarrow> json list \<Rightarrow> choice_scan" where
  "scan_choices md [] = ScanNone"
| "scan_choices md (choice # choices) =
     (if finish_reason choice = Some (JStr ''stop'') then ScanStop
      else if md = Tokens \<and> finish_reason choice = Some (JStr ''length'') then ScanLength
      else scan_choices md choices)"

text \<open>Lines 104-115.\<close>

definition check_choices :: "StreamMode \<Rightarrow> bool \<Rightarrow> json \<Rightarrow> framer \<Rightarrow> flow \<times> framer" where
  "check_choices md od parsed s =
     (if truthy (opt_prop (Some parsed) ''choices'') then
        (case iterate (the (opt_prop (Some parsed) ''choices'')) of
           None \<Rightarrow> (Throw RuntimeTypeError, s)
         | Some choices \<Rightarrow>
             (case scan_choices md choices of
                ScanStop \<Rightarrow> close_and_return od s
              | ScanLength \<Rightarrow> (Throw (Thrown_OpenAIError (new_OpenAIError MAX_TOKENS)), s)
              | ScanNone \<Rightarrow> (Continue, s)))
      else (Continue, s))"

text \<open>
  Lines 117-119. \<^verbatim>\<open>parsed.hasOwnProperty\<close> throws a TypeError on \<^verbatim>\<open>null\<close>, and when
  the object has a property of this name of its own (a JSON value, not a function);
  \<^verbatim>\<open>parsed.error.message\<close> throws one when \<^verbatim>\<open>parsed.error\<close> is \<^verbatim>\<open>null\<close>.
\<close>

fun check_error :: "json \<Rightarrow> framer \<Rightarrow> flow \<times> framer" where
  "check_error JNull s = (Throw RuntimeTypeError, s)"
| "check_error (JObj kvs) s =
     (if map_of kvs ''hasOwnProperty'' \<noteq> None then (Throw RuntimeTypeError, s)
      else
        (case map_of kvs ''error'' of
           None \<Rightarrow> (Continue, s)
         | Some JNull \<Rightarrow> (Throw RuntimeTypeError, s)
         | Some err \<Rightarrow>
             (Continue,
              s\<lparr> ctrl := controller_error (UpstreamError (get_prop err ''message'')) (ctrl s),
                 effects := effects s @ [ControllerError (UpstreamError (get_prop err ''message''))] \<rparr>)))"
| "check_error _ s = (Continue, s)"

text \<open>Line 122; an effect is recorded when the call does not throw.\<close>

definition enqueue_frame :: "string \<Rightarrow> framer \<Rightarrow> flow \<times> framer" where
  "enqueue_frame jsonString s =
     (case controller_enqueue jsonString (ctrl s) of
        Inl e \<Rightarrow> (Throw e, s)
      | Inr c \<Rightarrow> (Continue, s\<lparr> ctrl := c, effects := effects s @ [Enqueue jsonString] \<rparr>))"

text \<open>
  Lines 92-124 for one candidate. \<^verbatim>\<open>JSON.parse\<close> is a parameter: \<open>parse t\<close> is
  \<open>None\<close> when it throws on \<open>t\<close>, and then \<^verbatim>\<open>parsed\<close> stays \<^verbatim>\<open>null\<close>.
\<close>

definition process_candidate ::
  "(string \<Rightarrow> json option) \<Rightarrow> StreamMode \<Rightarrow> bool \<Rightarrow> string \<Rightarrow> framer \<Rightarrow> flow \<times> framer"
where
  "process_candidate parse md od jsonString s =
     (let parsed = (case parse jsonString of None \<Rightarrow> JNull | Some v \<Rightarrow> v)
      in if typeof_object parsed then
           (case check_choices md od parsed s of
              (Continue, s1) \<Rightarrow>
                (case check_error parsed s1 of
                   (Continue, s2) \<Rightarrow> enqueue_frame jsonString s2
                 | r \<Rightarrow> r)
            | r \<Rightarrow> r)
         else (Continue, s))"

text \<open>
  The \<^verbatim>\<open>while (true)\<close> loop of lines 75-125; \<open>Continue\<close> is its \<^verbatim>\<open>break\<close>, after
  which \<^verbatim>\<open>start\<close> waits for the next chunk.
\<close>

function frame_loop ::
  "(string \<Rightarrow> json option) \<Rightarrow> StreamMode \<Rightarrow> bool \<Rightarrow> framer \<Rightarrow> flow \<times> framer"
where
  "frame_loop parse md od s =
     (case indexOf (buffer s) ''\<newline>\<newline>'' of
        None \<Rightarrow> if bufferIsDone (buffer s) then close_and_return od s else (Continue, s)
      | Some boundary \<Rightarrow>
          if bufferIsDone (slice_from (buffer s) (boundary + 2))
          then close_and_return od (s\<lparr> buffer := slice_from (buffer s) (boundary + 2) \<rparr>)
          else
            (case process_candidate parse md od (trim (slice (buffer s) 5 boundary))
                    (s\<lparr> buffer := slice_from (buffer s) (boundary + 2) \<rparr>) of
               (Continue, s') \<Rightarrow>
                 frame_loop parse md od s'
             | r \<Rightarrow> r))"
  by pat_completeness auto

text \<open>The body of the \<^verbatim>\<open>for await\<close> loop for one chunk (lines 69-125).\<close>

definition on_chunk ::
  "(string \<Rightarrow> json option) \<Rightarrow> StreamMode \<Rightarrow> bool \<Rightarrow> string \<Rightarrow> framer \<Rightarrow> flow \<times> framer"
where
  "on_chunk parse md od chunk s =
     (if bufferIsDone (buffer s @ chunk)
      then close_and_return od (s\<lparr> buffer := buffer s @ chunk \<rparr>)
      else frame_loop parse md od (s\<lparr> buffer := buffer s @ chunk \<rparr>))"

text \<open>
  What happens while \<^verbatim>\<open>start\<close> runs: the source yields a chunk, or, while \<^verbatim>\<open>start\<close>
  waits for one, the consumer of the output reads or cancels.
\<close>

datatype source_event = Chunk string | ConsumerRead | ConsumerCancel

text \<open>
  The \<^verbatim>\<open>for await\<close> loop. When the events run out the source has ended and
  \<^verbatim>\<open>start\<close> completes (\<open>Continue\<close>); nothing is consumed after a return or a throw.
\<close>

fun consume ::
  "(string \<Rightarrow> json option) \<Rightarrow> StreamMode \<Rightarrow> bool \<Rightarrow> source_event list \<Rightarrow> framer
     \<Rightarrow> flow \<times> framer"
where
  "consume parse md od [] s = (Continue, s)"
| "consume parse md od (Chunk chunk # evs) s =
     (case on_chunk parse md od chunk s of
        (Continue, s') \<Rightarrow> consume parse md od evs s'
      | r \<Rightarrow> r)"
| "consume parse md od (ConsumerRead # evs) s =
     consume parse md od evs (s\<lparr> ctrl := consumer_read (ctrl s) \<rparr>)"
| "consume parse md od (ConsumerCancel # evs) s =
     consume parse md od evs (s\<lparr> ctrl := consumer_cancel (ctrl s) \<rparr>)"

definition new_controller :: controller where
  "new_controller = \<lparr> state = Readable, queue = [], readRequests = 0, closeRequested = False \<rparr>"

definition new_framer :: framer where
  "new_framer = \<lparr> buffer = [], ctrl = new_controller, effects = [] \<rparr>"

text \<open>The destructuring default \<^verbatim>\<open>mode = "tokens"\<close> of line 55.\<close>

definition mode_of :: "OpenAIStreamOptions \<Rightarrow> StreamMode" where
  "mode_of options = (case mode options of None \<Rightarrow> Tokens | Some m \<Rightarrow> m)"

text \<open>
  \<^verbatim>\<open>EventStream\<close>: the run of \<^verbatim>\<open>start\<close> on a new controller. When \<^verbatim>\<open>start\<close> throws,
  the platform errors the stream with what was thrown.
\<close>

definition EventStream ::
  "(string \<Rightarrow> json option) \<Rightarrow> OpenAIStreamOptions \<Rightarrow> source_event list \<Rightarrow> flow \<times> framer"
where
  "EventStream parse options evs =
     (case consume parse (mode_of options) (onDone options) evs new_framer of
        (Throw e, s) \<Rightarrow> (Throw e, s\<lparr> ctrl := controller_error e (ctrl s) \<rparr>)
      | r \<Rightarrow> r)"

text \<open>
  \<^verbatim>\<open>TokenStream\<close> and \<^verbatim>\<open>ChatStream\<close> hand their options to \<^verbatim>\<open>EventStream\<close>, with
  \<^verbatim>\<open>{ mode: "tokens" }\<close> when the argument is left out; this is the first stage of
  their pipeline.
\<close>

definition default_options :: "OpenAIStreamOptions option \<Rightarrow> OpenAIStreamOptions" where
  "default_options options =
     (case options of None \<Rightarrow> \<lparr> mode = Some Tokens, onDone = False \<rparr> | Some opts \<Rightarrow> opts)"

definition TokenStream_events ::
  "(string \<Rightarrow> json option) \<Rightarrow> OpenAIStreamOptions option \<Rightarrow> source_event list \<Rightarrow> flow \<times> framer"
where
  "TokenStream_events parse options evs = EventStream parse (default_options options) evs"

subsection \<open>Observations on the effects\<close>

fun is_data :: "effect \<Rightarrow> bool" where
  "is_data (Enqueue frame) = True"
| "is_data _ = False"

text \<open>No frame is enqueued after a close, an error signal or the completion hook.\<close>

fun no_data_after_end :: "effect list \<Rightarrow> bool" where
  "no_data_after_end [] = True"
| "no_data_after_end (e # es) =
     (if is_data e then no_data_after_end es else \<not> list_ex is_data es)"

text \<open>
  How the effects of a piece of the run end, after the frames it enqueued: with nothing
  when control goes on, with the close and the hook when it returns, with at most one
  error signal when it throws.
\<close>

fun end_shape :: "bool \<Rightarrow> flow \<Rightarrow> effect list \<Rightarrow> bool" where
  "end_shape od Continue tail = (tail = [])"
| "end_shape od Return tail =
     (tail = (if od then [OnDone] else []) \<or> tail = Close # (if od then [OnDone] else []))"
| "end_shape od (Throw e) tail = (case tail of [] \<Rightarrow> True | [ControllerError u] \<Rightarrow> True | _ \<Rightarrow> False)"

subsection \<open>Sample inputs\<close>

text \<open>
  A stand-in for \<^verbatim>\<open>JSON.parse\<close> on the texts of the examples below: it gives the value
  of each listed text and fails on every other text.
\<close>

definition text_hi :: string where
  \<open>text_hi = ''{"choices":[{"delta":{"content":"Hi"}}]}''\<close>

definition text_length :: string where
  \<open>text_length = ''{"choices":[{"finish_reason":"length"}]}''\<close>

definition text_stop :: string where
  \<open>text_stop = ''{"choices":[{"finish_reason":"stop"}]}''\<close>

definition text_stop_length :: string where
  \<open>text_stop_length = ''{"choices":[{"finish_reason":"stop"},{"finish_reason":"length"}]}''\<close>

definition text_null_length :: string where
  \<open>text_null_length = ''{"choices":[{"finish_reason":null},{"finish_reason":"length"}]}''\<close>

definition text_error :: string where
  \<open>text_error = ''{"error":{"message":"boom"}}''\<close>

definition text_blank_line :: string where
  \<open>text_blank_line = ''{"a":\<newline>\<newline>1}''\<close>

definition choice_stop :: json where
  "choice_stop = JObj [(''finish_reason'', JStr ''stop'')]"

definition choice_null :: json where
  "choice_null = JObj [(''finish_reason'', JNull)]"

definition choice_length :: json where
  "choice_length = JObj [(''finish_reason'', JStr ''length'')]"

definition parse_demo :: "string \<Rightarrow> json option" where
  "parse_demo = map_of
     [(text_hi,
         JObj [(''choices'', JArr [JObj [(''delta'', JObj [(''content'', JStr ''Hi'')])]])]),
      (text_length, JObj [(''choices'', JArr [choice_length])]),
      (text_stop, JObj [(''choices'', JArr [choice_stop])]),
      (text_stop_length, JObj [(''choices'', JArr [choice_stop, choice_length])]),
      (text_null_length, JObj [(''choices'', JArr [choice_null, choice_length])]),
      (text_error, JObj [(''error'', JObj [(''message'', JStr ''boom'')])]),
      (text_blank_line, JObj [(''a'', JNum 1)])]"

text \<open>Another parser, to compare outcomes: it takes every text for a value.\<close>

definition parse_any :: "string \<Rightarrow> json option" where
  "parse_any t = Some (JStr t)"

text \<open>The event of the wire format that carries a payload.\<close>

definition sse_event :: "string \<Rightarrow> string" where
  "sse_event payload = ''data: '' @ payload @ ''\<newline>\<newline>''"

definition opts_tokens :: OpenAIStreamOptions where
  "opts_tokens = \<lparr> mode = Some Tokens, onDone = True \<rparr>"

definition opts_no_mode :: OpenAIStreamOptions where
  "opts_no_mode = \<lparr> mode = None, onDone = True \<rparr>"

definition waiting :: "string \<Rightarrow> framer" where
  "waiting text = new_framer\<lparr> buffer := text \<rparr>"

section \<open>Termination of the boundary loop\<close>

lemma indexOf_bound: "indexOf s pat = Some b \<Longrightarrow> b + length pat \<le> length s"
proof (induction s arbitrary: b)
  case Nil
  then show ?case by (simp split: if_splits)
next
  case (Cons c cs)
  show ?case
  proof (cases "prefix pat (c # cs)")
    case True
    with Cons.prems have "b = 0" by simp
    with True show ?thesis by (auto dest: prefix_length_le)
  next
    case False
    with Cons.prems obtain b' where "indexOf cs pat = Some b'" "b = Suc b'" by auto
    with Cons.IH show ?thesis by simp
  qed
qed

lemma closeController_buffer: "buffer (snd (closeController od s)) = buffer s"
  by (simp add: closeController_def call_onDone_def split: sum.splits)

lemma close_and_return_buffer: "buffer (snd (close_and_return od s)) = buffer s"
  using closeController_buffer [of od s]
  by (auto simp: close_and_return_def split: prod.splits option.splits)

lemma check_choices_buffer: "buffer (snd (check_choices md od parsed s)) = buffer s"
  by (simp add: check_choices_def close_and_return_buffer
        split: option.splits choice_scan.splits)

lemma check_error_buffer: "buffer (snd (check_error parsed s)) = buffer s"
  by (cases parsed) (simp_all split: option.splits json.splits)

lemma enqueue_frame_buffer: "buffer (snd (enqueue_frame js s)) = buffer s"
  by (simp add: enqueue_frame_def split: sum.splits)

lemma process_candidate_buffer:
  "buffer (snd (process_candidate parse md od js s)) = buffer s"
proof -
  have "buffer (snd (case check_choices md od p s of
            (Continue, s1) \<Rightarrow>
              (case check_error p s1 of
                 (Continue, s2) \<Rightarrow> enqueue_frame js s2
               | r \<Rightarrow> r)
          | r \<Rightarrow> r)) = buffer s" for p
    using check_choices_buffer [of md od p s]
    by (auto split: prod.splits flow.splits
          simp: enqueue_frame_buffer
          dest: arg_cong [where f = "\<lambda>r. buffer (snd r)", of "check_error _ _"]
          simp: check_error_buffer)
  then show ?thesis by (simp add: process_candidate_def Let_def)
qed

termination frame_loop
proof (relation "measure (\<lambda>(parse, md, od, s). length (buffer s))", goal_cases)
  case 1
  show ?case by simp
next
  case (2 parse md od s boundary x y)
  from 2(3) [symmetric] have "buffer y = slice_from (buffer s) (boundary + 2)"
    using process_candidate_buffer
      [of parse md od "trim (slice (buffer s) 5 boundary)"
          "s\<lparr>buffer := slice_from (buffer s) (boundary + 2)\<rparr>"]
    by simp
  with indexOf_bound [OF 2(1)] show ?case by (simp add: slice_from_def)
qed

section \<open>Properties of fetchWithBackoff\<close>

declare backoff_loop.simps [simp del]

lemma rate_limited_try:
  "rate_limited (fetch i) \<Longrightarrow>
     \<exists>e. try_fetch fetch i = Inl e \<and> error_message e = ''RATE_LIMIT_REACHED''"
  by (auto simp: rate_limited_def try_fetch_def split: sum.splits)

lemma backoff_loop_retry:
  assumes "rate_limited (fetch i)" "hook i d = None" "int i < maxR"
  shows "backoff_loop fetch hook maxR i d =
     (let (tr, res) = backoff_loop fetch hook maxR (Suc i) (d * 2)
      in ([FetchCall i, ConsoleLog d, HookCall i d, Sleep d] @ tr, res))"
  using rate_limited_try [of fetch i] assms
  by (subst backoff_loop.simps) auto

lemma backoff_loop_last:
  assumes "rate_limited (fetch i)" "int i = maxR"
  shows "\<exists>e. backoff_loop fetch hook maxR i d = ([FetchCall i], Inl e)
            \<and> error_message e = ''RATE_LIMIT_REACHED''"
  using rate_limited_try [of fetch i] assms
  by (subst backoff_loop.simps) auto

lemma upt_diff_Cons: "Suc i \<le> N \<Longrightarrow> [0..<N - i] = 0 # map Suc [0..<N - Suc i]"
  by (metis Suc_diff_Suc Suc_le_lessD map_Suc_upt upt_conv_Cons zero_less_Suc)

text \<open>
  The loop from index \<open>i\<close> when every call is rate limited and the hook returns:
  the remaining calls, hook invocations and sleeps, and the error it ends with.
\<close>

lemma backoff_loop_permanent:
  assumes rl: "\<forall>n. rate_limited (fetch n)" and hk: "\<forall>i d. hook i d = None"
  shows "i \<le> N \<Longrightarrow>
    \<exists>tr e. backoff_loop fetch hook (int N) i d = (tr, Inl e)
       \<and> error_message e = ''RATE_LIMIT_REACHED''
       \<and> fetch_calls tr = N + 1 - i
       \<and> hook_calls tr = N - i
       \<and> sleeps tr = map (\<lambda>k. d * 2 ^ k) [0..<N - i]"
proof (induction "N - i" arbitrary: i d)
  case 0
  then have "int i = int N" by simp
  with backoff_loop_last [of fetch i "int N" hook d] rl 0
  show ?case by auto
next
  case (Suc m)
  then have lt: "int i < int N" and le: "Suc i \<le> N" and m: "m = N - Suc i" by auto
  from Suc.hyps(1) [OF m le, of "d * 2"]
  obtain tr e where IH: "backoff_loop fetch hook (int N) (Suc i) (d * 2) = (tr, Inl e)"
    "error_message e = ''RATE_LIMIT_REACHED''" "fetch_calls tr = N + 1 - Suc i"
    "hook_calls tr = N - Suc i" "sleeps tr = map (\<lambda>k. d * 2 * 2 ^ k) [0..<N - Suc i]"
    by auto
  have step: "backoff_loop fetch hook (int N) i d =
     ([FetchCall i, ConsoleLog d, HookCall i d, Sleep d] @ tr, Inl e)"
    using backoff_loop_retry [of fetch i hook d "int N"] rl hk lt IH(1)
    by simp
  have "map (\<lambda>k. d * 2 ^ k) [0..<N - i] = d # map (\<lambda>k. d * 2 * 2 ^ k) [0..<N - Suc i]"
    by (simp add: upt_diff_Cons [OF le] comp_def)
  with step IH le show ?case by auto
qed

lemma fetchWithBackoff_permanent:
  assumes "\<forall>n. rate_limited (fetch n)"
      and "\<forall>i d. hook_of opts i d = None"
      and "maxRetries_of opts = int N"
  shows "\<exists>tr e. fetchWithBackoff (Some fetch) opts = (tr, Inl e)
       \<and> error_message e = ''RATE_LIMIT_REACHED''
       \<and> fetch_calls tr = N + 1
       \<and> hook_calls tr = N
       \<and> sleeps tr = map (\<lambda>k. delay_of opts * 2 ^ k) [0..<N]"
  using backoff_loop_permanent [of fetch "hook_of opts" 0 N "delay_of opts"] assms
  by (simp add: fetchWithBackoff_def)

lemma always429_rate_limited: "rate_limited (always429 n)"
  by (simp add: rate_limited_def always429_def check_response_def body429_def)

lemma opts_2_10_values:
  "hook_of opts_2_10 i d = None" "maxRetries_of opts_2_10 = int 2" "delay_of opts_2_10 = 10"
  by (simp_all add: hook_of_def maxRetries_of_def delay_of_def opts_2_10_def)

text \<open>
  C3 (the code departs from it). Under \<^verbatim>\<open>maxRetries = 2\<close>, \<^verbatim>\<open>delay = 10\<close> and a
  permanently rate-limited response, the function calls \<^verbatim>\<open>fetch\<close> three times, sleeps
  10 and 20, and then throws the caught error, whose message is
  \<^verbatim>\<open>RATE_LIMIT_REACHED\<close>: on the last index the \<^verbatim>\<open>catch\<close> block rethrows, and the
  \<^verbatim>\<open>throw new Error("Max retries reached.")\<close> behind the loop is not reached.
\<close>

theorem fetchWithBackoff_exhausted_rethrows:
  "fetchWithBackoff (Some always429) opts_2_10 =
     ([FetchCall 0, ConsoleLog 10, HookCall 0 10, Sleep 10,
       FetchCall 1, ConsoleLog 20, HookCall 1 20, Sleep 20,
       FetchCall 2], Inl (Error ''RATE_LIMIT_REACHED''))"
  by (simp add: fetchWithBackoff_def opts_2_10_values [simplified] backoff_loop.simps
        try_fetch_def always429_def check_response_def body429_def)

lemma opts_hook_values:
  "hook_of (opts_hook h) = h" "maxRetries_of (opts_hook h) = int 2" "delay_of (opts_hook h) = 10"
  by (simp_all add: hook_of_def maxRetries_of_def delay_of_def opts_hook_def)

text \<open>
  C7 (as amended). With \<^verbatim>\<open>maxRetries = N\<close>, when every call of \<^verbatim>\<open>fetch\<close> yields the
  rate-limit condition and every call of the hook \<^verbatim>\<open>onRateLimitReached\<close> returns
  normally, the function calls \<^verbatim>\<open>fetch\<close> exactly \<open>N + 1\<close> times and the hook exactly
  \<open>N\<close> times, and then fails.
\<close>

theorem fetchWithBackoff_call_counts:
  assumes "\<forall>n. rate_limited (fetch n)"
      and "\<forall>i d. hook_of opts i d = None"
      and "maxRetries_of opts = int N"
  shows "\<exists>tr e. fetchWithBackoff (Some fetch) opts = (tr, Inl e)
       \<and> fetch_calls tr = N + 1 \<and> hook_calls tr = N"
  using fetchWithBackoff_permanent [OF assms] by blast

theorem fetchWithBackoff_call_counts_witness:
  "(\<forall>n. rate_limited (always429 n))
   \<and> (\<forall>i d. hook_of (opts_hook quiet_hook) i d = None)
   \<and> maxRetries_of (opts_hook quiet_hook) = int 2
   \<and> (\<exists>tr e. fetchWithBackoff (Some always429) (opts_hook quiet_hook) = (tr, Inl e)
         \<and> fetch_calls tr = 2 + 1 \<and> hook_calls tr = 2)"
  using fetchWithBackoff_call_counts [of always429 "opts_hook quiet_hook" 2]
  by (simp add: always429_rate_limited opts_hook_values quiet_hook_def)

text \<open>
  C7 as stated fails: under \<^verbatim>\<open>maxRetries = 2\<close> and a permanently rate-limited
  response, a hook that throws ends the run after one call of \<^verbatim>\<open>fetch\<close> and one call
  of the hook, with the hook's error.
\<close>

theorem throwing_hook_call_counts_counterexample:
  "(\<forall>n. rate_limited (always429 n))
   \<and> maxRetries_of (opts_hook failing_hook) = 2
   \<and> fetchWithBackoff (Some always429) (opts_hook failing_hook)
       = ([FetchCall 0, ConsoleLog 10, HookCall 0 10], Inl (Error ''hook failed''))
   \<and> fetch_calls (fst (fetchWithBackoff (Some always429) (opts_hook failing_hook))) = 1
   \<and> hook_calls (fst (fetchWithBackoff (Some always429) (opts_hook failing_hook))) = 1"
proof -
  have run: "fetchWithBackoff (Some always429) (opts_hook failing_hook)
       = ([FetchCall 0, ConsoleLog 10, HookCall 0 10], Inl (Error ''hook failed''))"
    by code_simp
  show ?thesis
    unfolding run by (simp add: always429_rate_limited opts_hook_values)
qed

text \<open>
  C8 (as amended). With initial delay \<open>d\<close> and \<^verbatim>\<open>maxRetries = N\<close>, the sleeps of a
  permanently rate-limited run in which every call of the hook returns normally are
  exactly \<open>d, 2d, 4d, ..., d * 2 ^ (N - 1)\<close>: there are \<open>N\<close> of them, the first is
  \<open>d\<close> and each one is the double of the one before.
\<close>

theorem fetchWithBackoff_delays:
  assumes "\<forall>n. rate_limited (fetch n)"
      and "\<forall>i d. hook_of opts i d = None"
      and "maxRetries_of opts = int N"
  shows "sleeps (fst (fetchWithBackoff (Some fetch) opts))
           = map (\<lambda>k. delay_of opts * 2 ^ k) [0..<N]
       \<and> (\<forall>k. Suc k < N \<longrightarrow>
             sleeps (fst (fetchWithBackoff (Some fetch) opts)) ! Suc k
               = 2 * (sleeps (fst (fetchWithBackoff (Some fetch) opts)) ! k))"
proof -
  from fetchWithBackoff_permanent [OF assms]
  have eq: "sleeps (fst (fetchWithBackoff (Some fetch) opts))
              = map (\<lambda>k. delay_of opts * 2 ^ k) [0..<N]"
    by auto
  show ?thesis
    unfolding eq by simp
qed

theorem fetchWithBackoff_delays_witness:
  "(\<forall>n. rate_limited (always429 n))
   \<and> (\<forall>i d. hook_of (opts_hook quiet_hook) i d = None)
   \<and> maxRetries_of (opts_hook quiet_hook) = int 2
   \<and> sleeps (fst (fetchWithBackoff (Some always429) (opts_hook quiet_hook))) = [10, 20]
   \<and> Suc 0 < (2::nat)
   \<and> sleeps (fst (fetchWithBackoff (Some always429) (opts_hook quiet_hook))) ! Suc 0
        = 2 * (sleeps (fst (fetchWithBackoff (Some always429) (opts_hook quiet_hook))) ! 0)"
  using fetchWithBackoff_delays [of always429 "opts_hook quiet_hook" 2]
  by (simp add: always429_rate_limited opts_hook_values quiet_hook_def upt_rec)

text \<open>
  C8 as stated fails: under \<^verbatim>\<open>maxRetries = 2\<close>, initial delay 10 and a permanently
  rate-limited response, a hook that throws when called for the second retry ends the
  run after the first sleep, so the sleeps are 10 alone and not 10, 20.
\<close>

theorem throwing_hook_delays_counterexample:
  "(\<forall>n. rate_limited (always429 n))
   \<and> maxRetries_of (opts_hook failing_second_hook) = 2
   \<and> delay_of (opts_hook failing_second_hook) = 10
   \<and> fetchWithBackoff (Some always429) (opts_hook failing_second_hook)
       = ([FetchCall 0, ConsoleLog 10, HookCall 0 10, Sleep 10,
           FetchCall 1, ConsoleLog 20, HookCall 1 20], Inl (Error ''hook failed''))
   \<and> sleeps (fst (fetchWithBackoff (Some always429) (opts_hook failing_second_hook))) = [10]"
proof -
  have run: "fetchWithBackoff (Some always429) (opts_hook failing_second_hook)
       = ([FetchCall 0, ConsoleLog 10, HookCall 0 10, Sleep 10,
           FetchCall 1, ConsoleLog 20, HookCall 1 20], Inl (Error ''hook failed''))"
    by code_simp
  show ?thesis
    unfolding run by (simp add: always429_rate_limited opts_hook_values)
qed

section \<open>The effects of a run of EventStream\<close>

declare frame_loop.simps [simp del]

lemma close_and_return_shape:
  assumes "close_and_return od s = (f, s')"
  shows "f \<noteq> Continue \<and> (\<exists>tail. effects s' = effects s @ tail \<and> end_shape od f tail)"
  using assms
  by (auto simp: close_and_return_def closeController_def call_onDone_def
        split: if_splits sum.splits)

lemma check_choices_shape:
  assumes "check_choices md od parsed s = (f, s')"
  shows "(f = Continue \<and> s' = s) \<or>
         (f \<noteq> Continue \<and> (\<exists>tail. effects s' = effects s @ tail \<and> end_shape od f tail))"
proof (cases "truthy (opt_prop (Some parsed) ''choices'')")
  case False
  with assms show ?thesis by (simp add: check_choices_def)
next
  case True
  show ?thesis
  proof (cases "iterate (the (opt_prop (Some parsed) ''choices''))")
    case None
    with True assms show ?thesis by (auto simp: check_choices_def)
  next
    case (Some choices)
    show ?thesis
    proof (cases "scan_choices md choices")
      case ScanStop
      with True Some assms have "close_and_return od s = (f, s')"
        by (simp add: check_choices_def)
      from close_and_return_shape [OF this] show ?thesis by simp
    next
      case ScanLength
      with True Some assms show ?thesis by (auto simp: check_choices_def)
    next
      case ScanNone
      with True Some assms show ?thesis by (auto simp: check_choices_def)
    qed
  qed
qed

lemma enqueue_after_error:
  "enqueue_frame js (s\<lparr> ctrl := controller_error e (ctrl s), effects := es \<rparr>)
     = (Throw RuntimeTypeError, s\<lparr> ctrl := controller_error e (ctrl s), effects := es \<rparr>)"
  by (simp add: enqueue_frame_def controller_enqueue_def controller_error_def
        canCloseOrEnqueue_def)

lemma enqueue_frame_shape:
  assumes "enqueue_frame js s = (f, s')"
  shows "(f = Continue \<and> effects s' = effects s @ [Enqueue js]) \<or>
         (f = Throw RuntimeTypeError \<and> s' = s)"
  using assms by (auto simp: enqueue_frame_def controller_enqueue_def split: if_splits)

lemma error_then_enqueue_shape:
  assumes "(case check_error parsed s of
              (Continue, s2) \<Rightarrow> enqueue_frame js s2
            | r \<Rightarrow> r) = (f, s')"
  shows "(f = Continue \<and> effects s' = effects s @ [Enqueue js]) \<or>
         (f = Throw RuntimeTypeError \<and>
            (effects s' = effects s \<or> (\<exists>u. effects s' = effects s @ [ControllerError u])))"
proof (cases parsed)
  case JNull
  with assms show ?thesis by auto
next
  case (JObj kvs)
  show ?thesis
  proof (cases "map_of kvs ''hasOwnProperty'' \<noteq> None")
    case True
    with JObj assms show ?thesis by auto
  next
    case False
    note nh = this
    show ?thesis
    proof (cases "map_of kvs ''error''")
      case None
      with JObj nh assms have "enqueue_frame js s = (f, s')" by simp
      from enqueue_frame_shape [OF this] show ?thesis by auto
    next
      case (Some err)
      show ?thesis
      proof (cases "err = JNull")
        case True
        with JObj nh Some assms show ?thesis by auto
      next
        case False
        with JObj nh Some have
          "check_error parsed s = (Continue,
              s\<lparr> ctrl := controller_error (UpstreamError (get_prop err ''message'')) (ctrl s),
                 effects := effects s @ [ControllerError (UpstreamError (get_prop err ''message''))] \<rparr>)"
          by (cases err) simp_all
        with assms show ?thesis by (auto simp: enqueue_after_error)
      qed
    qed
  qed
next
  case (JBool b)
  with assms have "enqueue_frame js s = (f, s')" by simp
  from enqueue_frame_shape [OF this] show ?thesis by auto
next
  case (JNum n)
  with assms have "enqueue_frame js s = (f, s')" by simp
  from enqueue_frame_shape [OF this] show ?thesis by auto
next
  case (JStr t)
  with assms have "enqueue_frame js s = (f, s')" by simp
  from enqueue_frame_shape [OF this] show ?thesis by auto
next
  case (JArr xs)
  with assms have "enqueue_frame js s = (f, s')" by simp
  from enqueue_frame_shape [OF this] show ?thesis by auto
qed

lemma process_candidate_shape:
  assumes "process_candidate parse md od js s = (f, s')"
  shows "\<exists>ds tail. effects s' = effects s @ map Enqueue ds @ tail \<and> end_shape od f tail"
proof -
  define parsed where "parsed = (case parse js of None \<Rightarrow> JNull | Some v \<Rightarrow> v)"
  show ?thesis
  proof (cases "typeof_object parsed")
    case False
    with assms have "f = Continue" "s' = s"
      by (simp_all add: process_candidate_def parsed_def)
    then have "effects s' = effects s @ map Enqueue [] @ [] \<and> end_shape od f []" by simp
    then show ?thesis by blast
  next
    case True
    obtain f1 s1 where c: "check_choices md od parsed s = (f1, s1)" by fastforce
    from check_choices_shape [OF c] show ?thesis
    proof
      assume "f1 = Continue \<and> s1 = s"
      with True c assms have
        "(case check_error parsed s of (Continue, s2) \<Rightarrow> enqueue_frame js s2 | r \<Rightarrow> r) = (f, s')"
        by (simp add: process_candidate_def parsed_def)
      from error_then_enqueue_shape [OF this] show ?thesis
      proof (elim disjE conjE exE)
        assume "f = Continue" "effects s' = effects s @ [Enqueue js]"
        then have "effects s' = effects s @ map Enqueue [js] @ [] \<and> end_shape od f []" by simp
        then show ?thesis by blast
      next
        assume "f = Throw RuntimeTypeError" "effects s' = effects s"
        then have "effects s' = effects s @ map Enqueue [] @ [] \<and> end_shape od f []" by simp
        then show ?thesis by blast
      next
        fix u assume "f = Throw RuntimeTypeError" "effects s' = effects s @ [ControllerError u]"
        then have "effects s' = effects s @ map Enqueue [] @ [ControllerError u]
                    \<and> end_shape od f [ControllerError u]" by simp
        then show ?thesis by blast
      qed
    next
      assume a: "f1 \<noteq> Continue \<and> (\<exists>tail. effects s1 = effects s @ tail \<and> end_shape od f1 tail)"
      with True c assms have "f = f1" "s' = s1"
        by (auto simp: process_candidate_def parsed_def split: flow.splits)
      with a obtain tail where "effects s' = effects s @ map Enqueue [] @ tail \<and> end_shape od f tail"
        by auto
      then show ?thesis by blast
    qed
  qed
qed

lemma shape_trans:
  assumes "effects s1 = effects s @ map Enqueue ds1"
      and "\<exists>ds tail. effects s' = effects s1 @ map Enqueue ds @ tail \<and> end_shape od f tail"
  shows "\<exists>ds tail. effects s' = effects s @ map Enqueue ds @ tail \<and> end_shape od f tail"
proof -
  from assms(2) obtain ds tail where "effects s' = effects s1 @ map Enqueue ds @ tail" "end_shape od f tail"
    by blast
  with assms(1) have "effects s' = effects s @ map Enqueue (ds1 @ ds) @ tail \<and> end_shape od f tail"
    by simp
  then show ?thesis by blast
qed

lemma shape_of_end:
  assumes "f \<noteq> Continue \<and> (\<exists>tail. effects s' = effects s @ tail \<and> end_shape od f tail)"
  shows "\<exists>ds tail. effects s' = effects s @ map Enqueue ds @ tail \<and> end_shape od f tail"
proof -
  from assms obtain tail where "effects s' = effects s @ map Enqueue [] @ tail \<and> end_shape od f tail"
    by auto
  then show ?thesis by blast
qed

lemma frame_loop_shape:
  "frame_loop parse md od s = (f, s') \<Longrightarrow>
     \<exists>ds tail. effects s' = effects s @ map Enqueue ds @ tail \<and> end_shape od f tail"
proof (induction parse md od s arbitrary: f s' rule: frame_loop.induct)
  case (1 parse md od s)
  show ?case
  proof (cases "indexOf (buffer s) ''\<newline>\<newline>''")
    case None
    show ?thesis
    proof (cases "bufferIsDone (buffer s)")
      case True
      with None "1.prems" have "close_and_return od s = (f, s')"
        by (simp add: frame_loop.simps)
      from shape_of_end [OF close_and_return_shape [OF this]] show ?thesis .
    next
      case False
      with None "1.prems" have "f = Continue" "s' = s" by (simp_all add: frame_loop.simps)
      then have "effects s' = effects s @ map Enqueue [] @ [] \<and> end_shape od f []" by simp
      then show ?thesis by blast
    qed
  next
    case (Some boundary)
    define s0 where "s0 = s\<lparr> buffer := slice_from (buffer s) (boundary + 2) \<rparr>"
    have e0: "effects s0 = effects s" by (simp add: s0_def)
    show ?thesis
    proof (cases "bufferIsDone (slice_from (buffer s) (boundary + 2))")
      case True
      with Some "1.prems" have "close_and_return od s0 = (f, s')"
        by (simp add: frame_loop.simps s0_def)
      from shape_of_end [OF close_and_return_shape [OF this]] e0 show ?thesis by simp
    next
      case False
      obtain f1 s1 where p: "process_candidate parse md od (trim (slice (buffer s) 5 boundary)) s0 = (f1, s1)"
        by fastforce
      from process_candidate_shape [OF p] e0
      obtain ds1 tl1 where sh1: "effects s1 = effects s @ map Enqueue ds1 @ tl1" "end_shape od f1 tl1"
        by auto
      show ?thesis
      proof (cases "f1 = Continue")
        case True
        with Some False p "1.prems" have r: "frame_loop parse md od s1 = (f, s')"
          by (simp add: frame_loop.simps [of parse md od s] s0_def)
        from True sh1 have e1: "effects s1 = effects s @ map Enqueue ds1" by simp
        from "1.IH" [OF Some False _ _ r, of f1] p True
        have "\<exists>ds tail. effects s' = effects s1 @ map Enqueue ds @ tail \<and> end_shape od f tail"
          by (simp add: s0_def)
        from shape_trans [OF e1 this] show ?thesis .
      next
        case F: False
        with Some False p "1.prems" have "f = f1" "s' = s1"
          by (auto simp: frame_loop.simps [of parse md od s] s0_def split: flow.splits)
        with sh1 show ?thesis by blast
      qed
    qed
  qed
qed


lemma on_chunk_shape:
  assumes "on_chunk parse md od chunk s = (f, s')"
  shows "\<exists>ds tail. effects s' = effects s @ map Enqueue ds @ tail \<and> end_shape od f tail"
proof (cases "bufferIsDone (buffer s @ chunk)")
  case True
  with assms have "close_and_return od (s\<lparr> buffer := buffer s @ chunk \<rparr>) = (f, s')"
    by (simp add: on_chunk_def)
  from shape_of_end [OF close_and_return_shape [OF this]] show ?thesis by simp
next
  case False
  with assms have "frame_loop parse md od (s\<lparr> buffer := buffer s @ chunk \<rparr>) = (f, s')"
    by (simp add: on_chunk_def)
  from frame_loop_shape [OF this] show ?thesis by simp
qed

lemma consume_shape:
  "consume parse md od evs s = (f, s') \<Longrightarrow>
     \<exists>ds tail. effects s' = effects s @ map Enqueue ds @ tail \<and> end_shape od f tail"
proof (induction evs arbitrary: s)
  case Nil
  then have "effects s' = effects s @ map Enqueue [] @ [] \<and> end_shape od f []" by simp
  then show ?case by blast
next
  case (Cons ev evs)
  show ?case
  proof (cases ev)
    case (Chunk chunk)
    obtain f1 s1 where oc: "on_chunk parse md od chunk s = (f1, s1)" by fastforce
    from on_chunk_shape [OF oc]
    obtain ds1 tail1 where sh1: "effects s1 = effects s @ map Enqueue ds1 @ tail1" "end_shape od f1 tail1"
      by blast
    show ?thesis
    proof (cases "f1 = Continue")
      case True
      with Chunk oc Cons.prems have "consume parse md od evs s1 = (f, s')" by simp
      from Cons.IH [OF this] True sh1 show ?thesis
        using shape_trans [of s1 s ds1 s' od f] by simp
    next
      case False
      with Chunk oc Cons.prems have "f = f1" "s' = s1" by (auto split: flow.splits)
      with sh1 show ?thesis by blast
    qed
  next
    case ConsumerRead
    with Cons.prems Cons.IH [of "s\<lparr> ctrl := consumer_read (ctrl s) \<rparr>"] show ?thesis by simp
  next
    case ConsumerCancel
    with Cons.prems Cons.IH [of "s\<lparr> ctrl := consumer_cancel (ctrl s) \<rparr>"] show ?thesis by simp
  qed
qed

lemma EventStream_effects:
  "effects (snd (EventStream parse options evs))
     = effects (snd (consume parse (mode_of options) (onDone options) evs new_framer))"
  "fst (EventStream parse options evs)
     = fst (consume parse (mode_of options) (onDone options) evs new_framer)"
  by (auto simp: EventStream_def split: prod.splits flow.splits)

lemma EventStream_shape:
  "\<exists>ds tail. effects (snd (EventStream parse options evs)) = map Enqueue ds @ tail
       \<and> end_shape (onDone options) (fst (EventStream parse options evs)) tail"
proof -
  obtain f s' where c: "consume parse (mode_of options) (onDone options) evs new_framer = (f, s')"
    by fastforce
  from consume_shape [OF c] c show ?thesis
    by (simp add: EventStream_effects new_framer_def)
qed

lemma no_data_after_end_shape:
  "end_shape od f tail \<Longrightarrow> no_data_after_end (map Enqueue ds @ tail)"
proof (induction ds)
  case Nil
  then show ?case
    by (cases f) (auto split: list.splits effect.splits)
next
  case (Cons d ds)
  then show ?case by simp
qed

lemma count_OnDone_shape:
  "end_shape od f tail \<Longrightarrow>
     count_list (map Enqueue ds @ tail) OnDone = (if od \<and> f = Return then 1 else 0)"
  by (induction ds) (cases f; auto split: list.splits effect.splits)+

lemma count_Close_shape:
  "end_shape od f tail \<Longrightarrow>
     count_list (map Enqueue ds @ tail) Close = (if Close \<in> set tail then 1 else 0)
     \<and> (Close \<in> set tail \<longrightarrow> f = Return)"
  by (induction ds) (cases f; auto split: list.splits effect.splits)+

lemma consume_stops:
  "fst (consume parse md od evs s) \<noteq> Continue \<Longrightarrow>
     consume parse md od (evs @ rest) s = consume parse md od evs s"
proof (induction evs arbitrary: s)
  case Nil
  then show ?case by simp
next
  case (Cons ev evs)
  show ?case
  proof (cases ev)
    case (Chunk chunk)
    obtain f1 s1 where oc: "on_chunk parse md od chunk s = (f1, s1)" by fastforce
    show ?thesis
    proof (cases "f1 = Continue")
      case True
      with Chunk oc Cons.prems Cons.IH [of s1] show ?thesis by simp
    next
      case False
      with Chunk oc show ?thesis by (auto split: flow.splits)
    qed
  next
    case ConsumerRead
    with Cons.prems Cons.IH [of "s\<lparr> ctrl := consumer_read (ctrl s) \<rparr>"] show ?thesis by simp
  next
    case ConsumerCancel
    with Cons.prems Cons.IH [of "s\<lparr> ctrl := consumer_cancel (ctrl s) \<rparr>"] show ?thesis by simp
  qed
qed

lemma EventStream_stops:
  assumes "fst (EventStream parse options evs) \<noteq> Continue"
  shows "EventStream parse options (evs @ rest) = EventStream parse options evs"
proof -
  from assms have "fst (consume parse (mode_of options) (onDone options) evs new_framer) \<noteq> Continue"
    by (simp add: EventStream_effects)
  from consume_stops [OF this, of rest] show ?thesis
    by (simp add: EventStream_def)
qed

lemma consume_append:
  "consume parse md od evs s = (Continue, s1) \<Longrightarrow>
     consume parse md od (evs @ rest) s = consume parse md od rest s1"
proof (induction evs arbitrary: s)
  case Nil
  then show ?case by simp
next
  case (Cons ev evs)
  show ?case
  proof (cases ev)
    case (Chunk chunk)
    obtain f2 s2 where oc: "on_chunk parse md od chunk s = (f2, s2)" by fastforce
    with Chunk Cons.prems have "f2 = Continue" "consume parse md od evs s2 = (Continue, s1)"
      by (auto split: flow.splits)
    with Chunk oc Cons.IH [of s2] show ?thesis by simp
  next
    case ConsumerRead
    with Cons.prems Cons.IH [of "s\<lparr> ctrl := consumer_read (ctrl s) \<rparr>"] show ?thesis by simp
  next
    case ConsumerCancel
    with Cons.prems Cons.IH [of "s\<lparr> ctrl := consumer_cancel (ctrl s) \<rparr>"] show ?thesis by simp
  qed
qed

section \<open>Termination checks and finish reasons\<close>

lemma close_and_return_open:
  assumes "\<not> closeRequested (ctrl s)"
  shows "fst (close_and_return od s) = Return
       \<and> effects (snd (close_and_return od s))
           = effects s @ (if truthy_size (desiredSize (ctrl s)) then [Close] else [])
                       @ (if od then [OnDone] else [])"
proof (cases "truthy_size (desiredSize (ctrl s))")
  case False
  then show ?thesis
    by (simp add: close_and_return_def closeController_def call_onDone_def)
next
  case True
  then have "state (ctrl s) = Readable"
    by (auto simp: desiredSize_def split: stream_state.splits)
  with assms have "canCloseOrEnqueue (ctrl s)" by (simp add: canCloseOrEnqueue_def)
  with True show ?thesis
    by (simp add: close_and_return_def closeController_def call_onDone_def controller_close_def)
qed

lemma frame_loop_done_after_extraction:
  assumes "indexOf (buffer s) ''\<newline>\<newline>'' = Some b"
      and "bufferIsDone (slice_from (buffer s) (b + 2))"
  shows "frame_loop parse md od s
           = close_and_return od (s\<lparr> buffer := slice_from (buffer s) (b + 2) \<rparr>)"
  using assms by (subst frame_loop.simps) simp

lemma frame_loop_candidate:
  assumes "indexOf (buffer s) ''\<newline>\<newline>'' = Some b"
      and "\<not> bufferIsDone (slice_from (buffer s) (b + 2))"
  shows "frame_loop parse md od s
           = (case process_candidate parse md od (trim (slice (buffer s) 5 b))
                     (s\<lparr> buffer := slice_from (buffer s) (b + 2) \<rparr>) of
                (Continue, s') \<Rightarrow> frame_loop parse md od s'
              | r \<Rightarrow> r)"
  using assms by (subst frame_loop.simps) simp

lemma has_choices_object:
  "opt_prop (Some parsed) k = Some v \<Longrightarrow> typeof_object parsed"
  by (cases parsed) simp_all

lemma process_candidate_choices:
  assumes "parse js = Some parsed"
      and "opt_prop (Some parsed) ''choices'' = Some (JArr cs)"
  shows "scan_choices md cs = ScanStop \<Longrightarrow>
           process_candidate parse md od js s = close_and_return od s"
    and "scan_choices md cs = ScanLength \<Longrightarrow>
           process_candidate parse md od js s
             = (Throw (Thrown_OpenAIError (new_OpenAIError MAX_TOKENS)), s)"
proof -
  have obj: "typeof_object parsed" using assms(2) by (rule has_choices_object)
  {
    assume st: "scan_choices md cs = ScanStop"
    have "fst (close_and_return od s) \<noteq> Continue"
      using close_and_return_shape [of od s] by (metis prod.collapse)
    with st obj assms show "process_candidate parse md od js s = close_and_return od s"
      by (cases "close_and_return od s")
         (auto simp: process_candidate_def check_choices_def split: flow.splits)
  }
  {
    assume "scan_choices md cs = ScanLength"
    with obj assms show "process_candidate parse md od js s
             = (Throw (Thrown_OpenAIError (new_OpenAIError MAX_TOKENS)), s)"
      by (simp add: process_candidate_def check_choices_def)
  }
qed

lemma scan_choices_first_stop:
  assumes "\<forall>x\<in>set pre. finish_reason x \<noteq> Some (JStr ''stop'')
              \<and> (md = Tokens \<longrightarrow> finish_reason x \<noteq> Some (JStr ''length''))"
      and "finish_reason c = Some (JStr ''stop'')"
  shows "scan_choices md (pre @ c # post) = ScanStop"
  using assms by (induction pre) auto

lemma scan_choices_first_length:
  assumes "\<forall>x\<in>set pre. finish_reason x \<noteq> Some (JStr ''stop'')"
      and "finish_reason c = Some (JStr ''length'')"
  shows "scan_choices Tokens (pre @ c # post) = ScanLength"
  using assms by (induction pre) auto

text \<open>A candidate on which the parser fails makes \<^verbatim>\<open>start\<close> throw.\<close>

lemma process_candidate_unparsable:
  "parse js = None \<Longrightarrow> process_candidate parse md od js s = (Throw RuntimeTypeError, s)"
  by (simp add: process_candidate_def check_choices_def)

text \<open>
  C5 (as amended). For a candidate that parses to an event whose \<^verbatim>\<open>choices\<close> is an
  array, the first choice in array order whose \<^verbatim>\<open>finish_reason\<close> is \<^verbatim>\<open>"stop"\<close> or, in
  mode \<^verbatim>\<open>"tokens"\<close>, \<^verbatim>\<open>"length"\<close> decides: on \<^verbatim>\<open>"stop"\<close> the framer runs its close
  routine and returns; on \<^verbatim>\<open>"length"\<close> in mode \<^verbatim>\<open>"tokens"\<close> it throws the
  \<^verbatim>\<open>MAX_TOKENS\<close> error. Neither enqueues a frame.
\<close>

theorem first_finish_reason_decides:
  assumes "indexOf (buffer s) ''\<newline>\<newline>'' = Some b"
      and "\<not> bufferIsDone (slice_from (buffer s) (b + 2))"
      and "parse (trim (slice (buffer s) 5 b)) = Some parsed"
      and "opt_prop (Some parsed) ''choices'' = Some (JArr (pre @ c # post))"
      and "\<forall>x\<in>set pre. finish_reason x \<noteq> Some (JStr ''stop'')
              \<and> (md = Tokens \<longrightarrow> finish_reason x \<noteq> Some (JStr ''length''))"
      and "\<not> closeRequested (ctrl s)"
  shows "(finish_reason c = Some (JStr ''stop'') \<longrightarrow>
            fst (frame_loop parse md od s) = Return
          \<and> effects (snd (frame_loop parse md od s))
              = effects s @ (if truthy_size (desiredSize (ctrl s)) then [Close] else [])
                          @ (if od then [OnDone] else []))
       \<and> (md = Tokens \<and> finish_reason c = Some (JStr ''length'') \<longrightarrow>
            fst (frame_loop parse md od s)
              = Throw (Thrown_OpenAIError
                  \<lparr> type = MAX_TOKENS, message = ''Maximum number of tokens reached.'' \<rparr>)
          \<and> effects (snd (frame_loop parse md od s)) = effects s)"
proof (intro conjI impI)
  define s0 where "s0 = s\<lparr> buffer := slice_from (buffer s) (b + 2) \<rparr>"
  have s0: "\<not> closeRequested (ctrl s0)" "effects s0 = effects s" "ctrl s0 = ctrl s"
    using assms(6) by (simp_all add: s0_def)
  note step = frame_loop_candidate [OF assms(1,2), of parse md od, folded s0_def]
  {
    assume "finish_reason c = Some (JStr ''stop'')"
    from scan_choices_first_stop [OF assms(5) this, of post] assms(3,4)
    have "process_candidate parse md od (trim (slice (buffer s) 5 b)) s0 = close_and_return od s0"
      using process_candidate_choices(1)
        [of parse "trim (slice (buffer s) 5 b)" parsed "pre @ c # post" md od s0]
      by simp
    with step close_and_return_open [OF s0(1), of od]
    have "frame_loop parse md od s = close_and_return od s0"
      by (cases "close_and_return od s0") auto
    with close_and_return_open [OF s0(1), of od] s0
    show "fst (frame_loop parse md od s) = Return"
      and "effects (snd (frame_loop parse md od s))
              = effects s @ (if truthy_size (desiredSize (ctrl s)) then [Close] else [])
                          @ (if od then [OnDone] else [])"
      by simp_all
  }
  {
    assume "md = Tokens \<and> finish_reason c = Some (JStr ''length'')"
    then have md: "md = Tokens" and len: "finish_reason c = Some (JStr ''length'')" by simp_all
    from assms(5) have "\<forall>x\<in>set pre. finish_reason x \<noteq> Some (JStr ''stop'')" by blast
    from scan_choices_first_length [OF this len, of post] assms(3,4) md
    have "process_candidate parse md od (trim (slice (buffer s) 5 b)) s0
            = (Throw (Thrown_OpenAIError (new_OpenAIError MAX_TOKENS)), s0)"
      using process_candidate_choices(2)
        [of parse "trim (slice (buffer s) 5 b)" parsed "pre @ c # post" md od s0]
      by simp
    with step s0
    show "fst (frame_loop parse md od s)
              = Throw (Thrown_OpenAIError
                  \<lparr> type = MAX_TOKENS, message = ''Maximum number of tokens reached.'' \<rparr>)"
      and "effects (snd (frame_loop parse md od s)) = effects s"
      by (simp_all add: new_OpenAIError_def)
  }
qed

theorem first_finish_reason_decides_witness:
  "fst (frame_loop parse_demo Tokens True (waiting (sse_event text_stop))) = Return
   \<and> effects (snd (frame_loop parse_demo Tokens True (waiting (sse_event text_stop))))
        = [Close, OnDone]
   \<and> fst (frame_loop parse_demo Tokens True (waiting (sse_event text_null_length)))
        = Throw (Thrown_OpenAIError
            \<lparr> type = MAX_TOKENS, message = ''Maximum number of tokens reached.'' \<rparr>)
   \<and> effects (snd (frame_loop parse_demo Tokens True (waiting (sse_event text_null_length)))) = []"
proof -
  have a1: "indexOf (buffer (waiting (sse_event text_stop))) ''\<newline>\<newline>'' = Some 44"
    by code_simp
  have a2: "\<not> bufferIsDone (slice_from (buffer (waiting (sse_event text_stop))) (44 + 2))"
    by code_simp
  have a3: "parse_demo (trim (slice (buffer (waiting (sse_event text_stop))) 5 44))
              = Some (JObj [(''choices'', JArr [choice_stop])])"
    by code_simp
  have a4: "opt_prop (Some (JObj [(''choices'', JArr [choice_stop])])) ''choices''
              = Some (JArr ([] @ choice_stop # []))"
    by simp
  have a5: "\<forall>x\<in>set []. finish_reason x \<noteq> Some (JStr ''stop'')
              \<and> (Tokens = Tokens \<longrightarrow> finish_reason x \<noteq> Some (JStr ''length''))"
    by simp
  have a6: "\<not> closeRequested (ctrl (waiting (sse_event text_stop)))"
    by code_simp
  have a7: "finish_reason choice_stop = Some (JStr ''stop'')"
    by code_simp
  have a8: "truthy_size (desiredSize (ctrl (waiting (sse_event text_stop))))"
    "effects (waiting (sse_event text_stop)) = []"
    by code_simp+
  have b1: "indexOf (buffer (waiting (sse_event text_null_length))) ''\<newline>\<newline>'' = Some 69"
    by code_simp
  have b2: "\<not> bufferIsDone (slice_from (buffer (waiting (sse_event text_null_length))) (69 + 2))"
    by code_simp
  have b3: "parse_demo (trim (slice (buffer (waiting (sse_event text_null_length))) 5 69))
              = Some (JObj [(''choices'', JArr [choice_null, choice_length])])"
    by code_simp
  have b4: "opt_prop (Some (JObj [(''choices'', JArr [choice_null, choice_length])])) ''choices''
              = Some (JArr ([choice_null] @ choice_length # []))"
    by simp
  have b5: "\<forall>x\<in>set [choice_null]. finish_reason x \<noteq> Some (JStr ''stop'')
              \<and> (Tokens = Tokens \<longrightarrow> finish_reason x \<noteq> Some (JStr ''length''))"
    by (simp add: finish_reason_def choice_null_def)
  have b6: "\<not> closeRequested (ctrl (waiting (sse_event text_null_length)))"
    by code_simp
  have b7: "finish_reason choice_length = Some (JStr ''length'')"
    by code_simp
  have b8: "effects (waiting (sse_event text_null_length)) = []"
    by code_simp
  from first_finish_reason_decides
         [of "waiting (sse_event text_stop)" 44 parse_demo
             "JObj [(''choices'', JArr [choice_stop])]" "[]" choice_stop "[]" Tokens True,
          OF a1 a2 a3 a4 a5 a6]
       first_finish_reason_decides
         [of "waiting (sse_event text_null_length)" 69 parse_demo
             "JObj [(''choices'', JArr [choice_null, choice_length])]"
             "[choice_null]" choice_length "[]" Tokens True,
          OF b1 b2 b3 b4 b5 b6]
  show ?thesis
    by (simp add: a7 a8 b7 b8)
qed

text \<open>
  C5 as stated fails: in mode \<^verbatim>\<open>"tokens"\<close>, an event whose second choice has
  \<^verbatim>\<open>finish_reason\<close> \<^verbatim>\<open>"length"\<close> and whose first has \<^verbatim>\<open>"stop"\<close> closes the stream and does
  not fail it.
\<close>

theorem later_length_choice_counterexample:
  "fst (EventStream parse_demo opts_tokens [Chunk (sse_event text_stop_length)]) = Return
   \<and> state (ctrl (snd (EventStream parse_demo opts_tokens [Chunk (sse_event text_stop_length)])))
        = Closed
   \<and> mode_of opts_tokens = Tokens
   \<and> parse_demo text_stop_length = Some (JObj [(''choices'', JArr [choice_stop, choice_length])])
   \<and> finish_reason choice_length = Some (JStr ''length'')"
  by code_simp

text \<open>
  C1 (the code departs from it). A candidate that fails to parse leaves \<^verbatim>\<open>parsed\<close> at
  \<^verbatim>\<open>null\<close>, which passes \<^verbatim>\<open>typeof parsed === "object"\<close>; \<^verbatim>\<open>parsed.hasOwnProperty\<close> then
  throws a TypeError out of \<^verbatim>\<open>start\<close>, and the stream is errored. Here the source yields
  the single chunk \<^verbatim>\<open>data: {bad\n\n\<close>.
\<close>

theorem unparsable_candidate_errors_stream:
  "parse_demo ''{bad'' = None
   \<and> EventStream parse_demo opts_tokens [Chunk (sse_event ''{bad'')]
     = (Throw RuntimeTypeError,
        \<lparr> buffer = [],
          ctrl = \<lparr> state = Errored RuntimeTypeError, queue = [], readRequests = 0,
                   closeRequested = False \<rparr>,
          effects = [] \<rparr>)"
  by code_simp

text \<open>
  C2 (the code departs from it). The payload \<^verbatim>\<open>{"a":\n\n1}\<close> is valid JSON with a blank
  line inside. Its first part is cut at the blank line, removed from the buffer (which
  is left empty) and fails to parse; the TypeError of C1 then ends the run, the second
  chunk is never read, and no frame is ever enqueued.
\<close>

theorem split_payload_is_dropped:
  "sse_event text_blank_line = ''data: {\"a\":\<newline>\<newline>'' @ ''1}\<newline>\<newline>''
   \<and> parse_demo text_blank_line = Some (JObj [(''a'', JNum 1)])
   \<and> EventStream parse_demo opts_tokens
        [Chunk ''data: {\"a\":\<newline>\<newline>'', Chunk ''1}\<newline>\<newline>'']
     = (Throw RuntimeTypeError,
        \<lparr> buffer = [],
          ctrl = \<lparr> state = Errored RuntimeTypeError, queue = [], readRequests = 0,
                   closeRequested = False \<rparr>,
          effects = [] \<rparr>)"
  by code_simp

subsection \<open>While the run goes on, close has not been requested\<close>

lemma check_error_closeRequested:
  "closeRequested (ctrl (snd (check_error parsed s))) = closeRequested (ctrl s)"
  by (cases parsed) (simp_all add: controller_error_def split: option.splits json.splits)

lemma enqueue_frame_closeRequested:
  "closeRequested (ctrl (snd (enqueue_frame js s))) = closeRequested (ctrl s)"
  by (simp add: enqueue_frame_def controller_enqueue_def split: sum.splits)

lemma process_candidate_closeRequested:
  assumes "process_candidate parse md od js s = (Continue, s')"
  shows "closeRequested (ctrl s') = closeRequested (ctrl s)"
proof -
  define parsed where "parsed = (case parse js of None \<Rightarrow> JNull | Some v \<Rightarrow> v)"
  show ?thesis
  proof (cases "typeof_object parsed")
    case False
    with assms show ?thesis by (simp add: process_candidate_def parsed_def)
  next
    case True
    obtain f1 s1 where c: "check_choices md od parsed s = (f1, s1)" by fastforce
    obtain f2 s2 where e: "check_error parsed s = (f2, s2)" by fastforce
    from check_choices_shape [OF c] True c assms have "f1 = Continue" "s1 = s"
      by (auto simp: process_candidate_def parsed_def split: flow.splits)
    with True c e assms have "f2 = Continue" "enqueue_frame js s2 = (Continue, s')"
      by (auto simp: process_candidate_def parsed_def split: flow.splits)
    with check_error_closeRequested [of parsed s] enqueue_frame_closeRequested [of js s2] e
    show ?thesis by simp
  qed
qed

lemma frame_loop_closeRequested:
  "frame_loop parse md od s = (Continue, s') \<Longrightarrow>
     closeRequested (ctrl s') = closeRequested (ctrl s)"
proof (induction parse md od s rule: frame_loop.induct)
  case (1 parse md od s)
  show ?case
  proof (cases "indexOf (buffer s) ''\<newline>\<newline>''")
    case None
    with "1.prems" close_and_return_shape [of od s] show ?thesis
      by (cases "bufferIsDone (buffer s)") (auto simp: frame_loop.simps [of parse md od s])
  next
    case (Some boundary)
    define s0 where "s0 = s\<lparr> buffer := slice_from (buffer s) (boundary + 2) \<rparr>"
    show ?thesis
    proof (cases "bufferIsDone (slice_from (buffer s) (boundary + 2))")
      case True
      with Some "1.prems" close_and_return_shape [of od s0] show ?thesis
        by (auto simp: frame_loop.simps [of parse md od s] s0_def)
    next
      case False
      obtain f1 s1 where p: "process_candidate parse md od (trim (slice (buffer s) 5 boundary)) s0 = (f1, s1)"
        by fastforce
      with Some False "1.prems" have f1: "f1 = Continue" and r: "frame_loop parse md od s1 = (Continue, s')"
        by (auto simp: frame_loop.simps [of parse md od s] s0_def split: flow.splits)
      from "1.IH" [OF Some False _ _ r, of f1] p f1
      have "closeRequested (ctrl s') = closeRequested (ctrl s1)" by (simp add: s0_def)
      with process_candidate_closeRequested [of parse md od _ s0 s1] p f1 show ?thesis
        by (simp add: s0_def)
    qed
  qed
qed

lemma on_chunk_closeRequested:
  assumes "on_chunk parse md od chunk s = (Continue, s')"
  shows "closeRequested (ctrl s') = closeRequested (ctrl s)"
proof (cases "bufferIsDone (buffer s @ chunk)")
  case True
  with assms close_and_return_shape [of od "s\<lparr> buffer := buffer s @ chunk \<rparr>"] show ?thesis
    by (auto simp: on_chunk_def)
next
  case False
  with assms frame_loop_closeRequested [of parse md od "s\<lparr> buffer := buffer s @ chunk \<rparr>" s']
  show ?thesis by (simp add: on_chunk_def)
qed

lemma consume_closeRequested:
  "consume parse md od evs s = (Continue, s') \<Longrightarrow>
     closeRequested (ctrl s') = closeRequested (ctrl s)"
proof (induction evs arbitrary: s)
  case Nil
  then show ?case by simp
next
  case (Cons ev evs)
  show ?case
  proof (cases ev)
    case (Chunk chunk)
    obtain f1 s1 where oc: "on_chunk parse md od chunk s = (f1, s1)" by fastforce
    with Chunk Cons.prems have "f1 = Continue" "consume parse md od evs s1 = (Continue, s')"
      by (auto split: flow.splits)
    with Cons.IH [of s1] on_chunk_closeRequested [of parse md od chunk s s1] oc
    show ?thesis by simp
  next
    case ConsumerRead
    with Cons.prems Cons.IH [of "s\<lparr> ctrl := consumer_read (ctrl s) \<rparr>"] show ?thesis
      by (simp add: consumer_read_def split: list.splits)
  next
    case ConsumerCancel
    with Cons.prems Cons.IH [of "s\<lparr> ctrl := consumer_cancel (ctrl s) \<rparr>"] show ?thesis
      by (simp add: consumer_cancel_def)
  qed
qed

text \<open>
  So the hypothesis \<open>\<not> closeRequested (ctrl s)\<close> of the statements below holds of every
  state in which a run from a new controller waits for its next chunk.
\<close>

lemma running_not_closing:
  "consume parse md od evs new_framer = (Continue, s) \<Longrightarrow> \<not> closeRequested (ctrl s)"
  using consume_closeRequested [of parse md od evs new_framer s]
  by (simp add: new_framer_def new_controller_def)

text \<open>
  C4 (as amended). Whenever the buffer, once a chunk is appended or once a candidate and
  its boundary have been cut off, begins with \<^verbatim>\<open>data: [DONE]\<close> or is exactly \<^verbatim>\<open>[DONE]\<close>,
  the framer runs its close routine and ends the sequence. The check comes before any
  parsing of that content, so the outcome is the same whatever the parser makes of any
  text: malformed text there does not block the shutdown.
\<close>

theorem done_check_precedes_parsing:
  "(\<not> closeRequested (ctrl s) \<and> bufferIsDone (buffer s @ chunk) \<longrightarrow>
      fst (on_chunk parse md od chunk s) = Return
    \<and> effects (snd (on_chunk parse md od chunk s))
        = effects s @ (if truthy_size (desiredSize (ctrl s)) then [Close] else [])
                    @ (if od then [OnDone] else [])
    \<and> on_chunk parse' md od chunk s = on_chunk parse md od chunk s)
   \<and> (\<not> closeRequested (ctrl s) \<and> indexOf (buffer s) ''\<newline>\<newline>'' = None
        \<and> bufferIsDone (buffer s) \<longrightarrow>
      fst (frame_loop parse md od s) = Return
    \<and> effects (snd (frame_loop parse md od s))
        = effects s @ (if truthy_size (desiredSize (ctrl s)) then [Close] else [])
                    @ (if od then [OnDone] else [])
    \<and> frame_loop parse' md od s = frame_loop parse md od s)
   \<and> (\<not> closeRequested (ctrl s) \<and> indexOf (buffer s) ''\<newline>\<newline>'' = Some b
        \<and> bufferIsDone (slice_from (buffer s) (b + 2)) \<longrightarrow>
      fst (frame_loop parse md od s) = Return
    \<and> effects (snd (frame_loop parse md od s))
        = effects s @ (if truthy_size (desiredSize (ctrl s)) then [Close] else [])
                    @ (if od then [OnDone] else [])
    \<and> frame_loop parse' md od s = frame_loop parse md od s)
   \<and> (consume parse md od evs new_framer = (Continue, s)
        \<and> bufferIsDone (buffer s @ chunk) \<longrightarrow>
      fst (consume parse md od (evs @ Chunk chunk # rest) new_framer) = Return
    \<and> effects (snd (consume parse md od (evs @ Chunk chunk # rest) new_framer))
        = effects s @ (if truthy_size (desiredSize (ctrl s)) then [Close] else [])
                    @ (if od then [OnDone] else []))"
proof -
  have first: "fst (on_chunk parse md od chunk s) = Return
    \<and> effects (snd (on_chunk parse md od chunk s))
        = effects s @ (if truthy_size (desiredSize (ctrl s)) then [Close] else [])
                    @ (if od then [OnDone] else [])
    \<and> on_chunk parse' md od chunk s = on_chunk parse md od chunk s"
    if nc: "\<not> closeRequested (ctrl s)" and d: "bufferIsDone (buffer s @ chunk)"
    for s :: framer and parse parse' chunk
  proof -
    have "on_chunk p md od chunk s = close_and_return od (s\<lparr> buffer := buffer s @ chunk \<rparr>)"
      for p
      using d by (simp add: on_chunk_def)
    with close_and_return_open [of "s\<lparr> buffer := buffer s @ chunk \<rparr>" od] nc
    show ?thesis by simp
  qed
  have no_boundary: "fst (frame_loop parse md od s) = Return
    \<and> effects (snd (frame_loop parse md od s))
        = effects s @ (if truthy_size (desiredSize (ctrl s)) then [Close] else [])
                    @ (if od then [OnDone] else [])
    \<and> frame_loop parse' md od s = frame_loop parse md od s"
    if nc: "\<not> closeRequested (ctrl s)"
      and d: "indexOf (buffer s) ''\<newline>\<newline>'' = None" "bufferIsDone (buffer s)"
  proof -
    have "frame_loop p md od s = close_and_return od s" for p
      using d by (subst frame_loop.simps) simp
    with close_and_return_open [of s od] nc
    show ?thesis by simp
  qed
  have after_cut: "fst (frame_loop parse md od s) = Return
    \<and> effects (snd (frame_loop parse md od s))
        = effects s @ (if truthy_size (desiredSize (ctrl s)) then [Close] else [])
                    @ (if od then [OnDone] else [])
    \<and> frame_loop parse' md od s = frame_loop parse md od s"
    if nc: "\<not> closeRequested (ctrl s)"
      and d: "indexOf (buffer s) ''\<newline>\<newline>'' = Some b"
             "bufferIsDone (slice_from (buffer s) (b + 2))"
  proof -
    have "frame_loop p md od s
      = close_and_return od (s\<lparr> buffer := slice_from (buffer s) (b + 2) \<rparr>)" for p
      using frame_loop_done_after_extraction [of s b p md od] d by simp
    with close_and_return_open [of "s\<lparr> buffer := slice_from (buffer s) (b + 2) \<rparr>" od] nc
    show ?thesis by simp
  qed
  have in_run: "fst (consume parse md od (evs @ Chunk chunk # rest) new_framer) = Return
    \<and> effects (snd (consume parse md od (evs @ Chunk chunk # rest) new_framer))
        = effects s @ (if truthy_size (desiredSize (ctrl s)) then [Close] else [])
                    @ (if od then [OnDone] else [])"
    if run: "consume parse md od evs new_framer = (Continue, s)"
      and d: "bufferIsDone (buffer s @ chunk)"
  proof -
    from run have nc: "\<not> closeRequested (ctrl s)" by (rule running_not_closing)
    obtain s' where oc: "on_chunk parse md od chunk s = (Return, s')"
      using first [OF nc d, of parse parse] by (cases "on_chunk parse md od chunk s") simp
    from consume_append [OF run, of "Chunk chunk # rest"] oc
    have "consume parse md od (evs @ Chunk chunk # rest) new_framer
            = on_chunk parse md od chunk s"
      by simp
    with first [OF nc d, of parse parse] show ?thesis by simp
  qed
  show ?thesis
    using first [of s chunk parse parse'] no_boundary after_cut in_run by blast
qed

theorem done_check_precedes_parsing_witness:
  "\<not> closeRequested (ctrl new_framer)
   \<and> bufferIsDone (buffer new_framer @ sse_event ''[DONE]'')
   \<and> fst (on_chunk parse_demo Tokens True (sse_event ''[DONE]'') new_framer) = Return
   \<and> effects (snd (on_chunk parse_demo Tokens True (sse_event ''[DONE]'') new_framer))
       = [Close, OnDone]
   \<and> \<not> closeRequested (ctrl (waiting ''[DONE]''))
   \<and> indexOf (buffer (waiting ''[DONE]'')) ''\<newline>\<newline>'' = None
   \<and> bufferIsDone (buffer (waiting ''[DONE]''))
   \<and> fst (frame_loop parse_demo Tokens True (waiting ''[DONE]'')) = Return
   \<and> \<not> closeRequested (ctrl (waiting (sse_event ''{bad'' @ sse_event ''[DONE]'')))
   \<and> indexOf (buffer (waiting (sse_event ''{bad'' @ sse_event ''[DONE]''))) ''\<newline>\<newline>'' = Some 10
   \<and> bufferIsDone (slice_from (buffer (waiting (sse_event ''{bad'' @ sse_event ''[DONE]''))) (10 + 2))
   \<and> fst (frame_loop parse_demo Tokens True (waiting (sse_event ''{bad'' @ sse_event ''[DONE]'')))
       = Return
   \<and> effects (snd (frame_loop parse_demo Tokens True
                      (waiting (sse_event ''{bad'' @ sse_event ''[DONE]''))))
       = [Close, OnDone]
   \<and> frame_loop parse_any Tokens True (waiting (sse_event ''{bad'' @ sse_event ''[DONE]''))
       = frame_loop parse_demo Tokens True (waiting (sse_event ''{bad'' @ sse_event ''[DONE]''))
   \<and> consume parse_demo Tokens True [ConsumerRead, Chunk (sse_event text_hi)] new_framer
       = (Continue, \<lparr> buffer = [], ctrl = new_controller, effects = [Enqueue text_hi] \<rparr>)
   \<and> fst (consume parse_demo Tokens True
        ([ConsumerRead, Chunk (sse_event text_hi)] @ Chunk (sse_event ''[DONE]'') # [])
        new_framer) = Return
   \<and> effects (snd (consume parse_demo Tokens True
        ([ConsumerRead, Chunk (sse_event text_hi)] @ Chunk (sse_event ''[DONE]'') # [])
        new_framer)) = [Enqueue text_hi, Close, OnDone]"
proof -
  define s1 where "s1 = \<lparr> buffer = [], ctrl = new_controller, effects = [Enqueue text_hi] \<rparr>"
  define w where "w = waiting (sse_event ''{bad'' @ sse_event ''[DONE]'')"
  have h1: "\<not> closeRequested (ctrl new_framer)" by code_simp
  have h2: "bufferIsDone (buffer new_framer @ sse_event ''[DONE]'')" by code_simp
  have h3: "truthy_size (desiredSize (ctrl new_framer))" "effects new_framer = []" by code_simp+
  have k1: "\<not> closeRequested (ctrl (waiting ''[DONE]''))" by code_simp
  have k2: "indexOf (buffer (waiting ''[DONE]'')) ''\<newline>\<newline>'' = None" by code_simp
  have k3: "bufferIsDone (buffer (waiting ''[DONE]''))" by code_simp
  have g1: "\<not> closeRequested (ctrl w)" unfolding w_def by code_simp
  have g2: "indexOf (buffer w) ''\<newline>\<newline>'' = Some 10" unfolding w_def by code_simp
  have g3: "bufferIsDone (slice_from (buffer w) (10 + 2))" unfolding w_def by code_simp
  have g4: "truthy_size (desiredSize (ctrl w))" "effects w = []" unfolding w_def by code_simp+
  have r1: "consume parse_demo Tokens True [ConsumerRead, Chunk (sse_event text_hi)] new_framer
              = (Continue, s1)"
    unfolding s1_def by code_simp
  have r2: "bufferIsDone (buffer s1 @ sse_event ''[DONE]'')" unfolding s1_def by code_simp
  have r3: "truthy_size (desiredSize (ctrl s1))" "effects s1 = [Enqueue text_hi]"
    unfolding s1_def by code_simp+
  note A = done_check_precedes_parsing
             [of new_framer "sse_event ''[DONE]''" parse_demo Tokens True parse_demo 0 "[]" "[]",
              THEN conjunct1, THEN mp, OF conjI [OF h1 h2]]
  note B = done_check_precedes_parsing
             [of "waiting ''[DONE]''" "[]" parse_demo Tokens True parse_demo 0 "[]" "[]",
              THEN conjunct2, THEN conjunct1, THEN mp, OF conjI [OF k1 conjI [OF k2 k3]]]
  note C = done_check_precedes_parsing
             [of w "[]" parse_demo Tokens True parse_any 10 "[]" "[]",
              THEN conjunct2, THEN conjunct2, THEN conjunct1, THEN mp,
              OF conjI [OF g1 conjI [OF g2 g3]]]
  note D = done_check_precedes_parsing
             [of s1 "sse_event ''[DONE]''" parse_demo Tokens True parse_demo 0
                 "[ConsumerRead, Chunk (sse_event text_hi)]" "[]",
              THEN conjunct2, THEN conjunct2, THEN conjunct2, THEN mp, OF conjI [OF r1 r2]]
  from A B C D show ?thesis
    using h1 h2 h3 k1 k2 k3 g1 g2 g3 g4 r1 r3
    unfolding w_def s1_def by simp
qed

text \<open>
  C4 as stated fails: a buffer that begins with the sentinel \<^verbatim>\<open>[DONE]\<close> without
  being equal to it is not taken as done; the framer waits for more chunks.
\<close>

theorem bare_sentinel_prefix_counterexample:
  "prefix ''[DONE]'' ''[DONE] ''
   \<and> EventStream parse_demo opts_tokens [Chunk ''[DONE] '']
       = (Continue, \<lparr> buffer = ''[DONE] '', ctrl = new_controller, effects = [] \<rparr>)"
  by code_simp

section \<open>The default mode\<close>

text \<open>
  C10 (as amended). When the options leave \<^verbatim>\<open>mode\<close> out, \<^verbatim>\<open>EventStream\<close> runs in mode
  \<^verbatim>\<open>"tokens"\<close>: a parsed event with a \<^verbatim>\<open>choices\<close> array in which a choice with
  \<^verbatim>\<open>finish_reason\<close> \<^verbatim>\<open>"length"\<close> comes before any choice with \<^verbatim>\<open>"stop"\<close> makes \<^verbatim>\<open>start\<close>
  throw the error of type \<^verbatim>\<open>MAX_TOKENS\<close>, at whatever pass of the boundary loop the event
  is cut off; when it comes with the chunk the run was waiting for, the stream (if still
  readable) is errored with it and no frame is enqueued for the event. \<^verbatim>\<open>TokenStream\<close>
  and \<^verbatim>\<open>ChatStream\<close> hand such options on unchanged.
\<close>

theorem omitted_mode_is_tokens:
  assumes "mode options = None"
      and "indexOf (buffer s) ''\<newline>\<newline>'' = Some b"
      and "\<not> bufferIsDone (slice_from (buffer s) (b + 2))"
      and "parse (trim (slice (buffer s) 5 b)) = Some parsed"
      and "opt_prop (Some parsed) ''choices'' = Some (JArr (pre @ c # post))"
      and "\<forall>x\<in>set pre. finish_reason x \<noteq> Some (JStr ''stop'')"
      and "finish_reason c = Some (JStr ''length'')"
  shows "mode_of options = Tokens
       \<and> frame_loop parse (mode_of options) (onDone options) s
           = (Throw (Thrown_OpenAIError
                \<lparr> type = MAX_TOKENS, message = ''Maximum number of tokens reached.'' \<rparr>),
              s\<lparr> buffer := slice_from (buffer s) (b + 2) \<rparr>)
       \<and> (consume parse (mode_of options) (onDone options) evs new_framer = (Continue, s0)
            \<and> s = s0\<lparr> buffer := buffer s0 @ chunk \<rparr>
            \<and> \<not> bufferIsDone (buffer s0 @ chunk) \<longrightarrow>
            fst (EventStream parse options (evs @ Chunk chunk # rest))
              = Throw (Thrown_OpenAIError
                  \<lparr> type = MAX_TOKENS, message = ''Maximum number of tokens reached.'' \<rparr>)
          \<and> state (ctrl (snd (EventStream parse options (evs @ Chunk chunk # rest))))
              = (if state (ctrl s0) = Readable
                 then Errored (Thrown_OpenAIError
                   \<lparr> type = MAX_TOKENS, message = ''Maximum number of tokens reached.'' \<rparr>)
                 else state (ctrl s0))
          \<and> effects (snd (EventStream parse options (evs @ Chunk chunk # rest))) = effects s0
          \<and> TokenStream_events parse (Some options) (evs @ Chunk chunk # rest)
              = EventStream parse options (evs @ Chunk chunk # rest))"
proof (intro conjI impI)
  define err where "err = Thrown_OpenAIError
                \<lparr> type = MAX_TOKENS, message = ''Maximum number of tokens reached.'' \<rparr>"
  have err: "Thrown_OpenAIError (new_OpenAIError MAX_TOKENS) = err"
    by (simp add: err_def new_OpenAIError_def)
  show md: "mode_of options = Tokens"
    using assms(1) by (simp add: mode_of_def)
  define s1 where "s1 = s\<lparr> buffer := slice_from (buffer s) (b + 2) \<rparr>"
  have "scan_choices Tokens (pre @ c # post) = ScanLength"
    using assms(6,7) by (rule scan_choices_first_length)
  then have pc: "process_candidate parse Tokens (onDone options)
                   (trim (slice (buffer s) 5 b)) s1 = (Throw err, s1)"
    using process_candidate_choices(2)
      [of parse "trim (slice (buffer s) 5 b)" parsed "pre @ c # post" Tokens
          "onDone options" s1]
      assms(4,5)
    by (simp add: err)
  have fl: "frame_loop parse Tokens (onDone options) s = (Throw err, s1)"
    using frame_loop_candidate [of s b parse Tokens "onDone options"] assms(2,3) pc
    by (simp add: s1_def)
  then show "frame_loop parse (mode_of options) (onDone options) s
           = (Throw (Thrown_OpenAIError
                \<lparr> type = MAX_TOKENS, message = ''Maximum number of tokens reached.'' \<rparr>),
              s\<lparr> buffer := slice_from (buffer s) (b + 2) \<rparr>)"
    by (simp add: md err_def s1_def)
  assume run: "consume parse (mode_of options) (onDone options) evs new_framer = (Continue, s0)
            \<and> s = s0\<lparr> buffer := buffer s0 @ chunk \<rparr>
            \<and> \<not> bufferIsDone (buffer s0 @ chunk)"
  then have "on_chunk parse Tokens (onDone options) chunk s0 = (Throw err, s1)"
    using fl by (simp add: on_chunk_def)
  then have "consume parse Tokens (onDone options) (evs @ Chunk chunk # rest) new_framer
          = (Throw err, s1)"
    using consume_append [of parse Tokens "onDone options" evs new_framer s0 "Chunk chunk # rest"]
      run md
    by simp
  then have es: "EventStream parse options (evs @ Chunk chunk # rest)
          = (Throw err, s1\<lparr> ctrl := controller_error err (ctrl s1) \<rparr>)"
    by (simp add: EventStream_def md)
  have s1: "ctrl s1 = ctrl s0" "effects s1 = effects s0"
    using run by (simp_all add: s1_def)
  show "fst (EventStream parse options (evs @ Chunk chunk # rest))
              = Throw (Thrown_OpenAIError
                  \<lparr> type = MAX_TOKENS, message = ''Maximum number of tokens reached.'' \<rparr>)"
    using es by (simp add: err_def)
  show "state (ctrl (snd (EventStream parse options (evs @ Chunk chunk # rest))))
              = (if state (ctrl s0) = Readable
                 then Errored (Thrown_OpenAIError
                   \<lparr> type = MAX_TOKENS, message = ''Maximum number of tokens reached.'' \<rparr>)
                 else state (ctrl s0))"
    using es s1 by (simp add: err_def controller_error_def)
  show "effects (snd (EventStream parse options (evs @ Chunk chunk # rest))) = effects s0"
    using es s1 by simp
  show "TokenStream_events parse (Some options) (evs @ Chunk chunk # rest)
              = EventStream parse options (evs @ Chunk chunk # rest)"
    by (simp add: TokenStream_events_def default_options_def)
qed

theorem omitted_mode_is_tokens_witness:
  "mode opts_no_mode = None
   \<and> mode_of opts_no_mode = Tokens
   \<and> consume parse_demo (mode_of opts_no_mode) (onDone opts_no_mode)
        [ConsumerRead, Chunk (sse_event text_hi), Chunk ''data: ''] new_framer
       = (Continue, \<lparr> buffer = ''data: '', ctrl = new_controller, effects = [Enqueue text_hi] \<rparr>)
   \<and> \<not> bufferIsDone
        (buffer \<lparr> buffer = ''data: '', ctrl = new_controller, effects = [Enqueue text_hi] \<rparr>
           @ text_null_length @ ''\<newline>\<newline>'')
   \<and> fst (EventStream parse_demo opts_no_mode
        ([ConsumerRead, Chunk (sse_event text_hi), Chunk ''data: '']
           @ Chunk (text_null_length @ ''\<newline>\<newline>'') # []))
       = Throw (Thrown_OpenAIError
           \<lparr> type = MAX_TOKENS, message = ''Maximum number of tokens reached.'' \<rparr>)
   \<and> state (ctrl (snd (EventStream parse_demo opts_no_mode
        ([ConsumerRead, Chunk (sse_event text_hi), Chunk ''data: '']
           @ Chunk (text_null_length @ ''\<newline>\<newline>'') # []))))
       = Errored (Thrown_OpenAIError
           \<lparr> type = MAX_TOKENS, message = ''Maximum number of tokens reached.'' \<rparr>)
   \<and> effects (snd (EventStream parse_demo opts_no_mode
        ([ConsumerRead, Chunk (sse_event text_hi), Chunk ''data: '']
           @ Chunk (text_null_length @ ''\<newline>\<newline>'') # [])))
       = [Enqueue text_hi]"
proof -
  define s0 where "s0 = \<lparr> buffer = ''data: '', ctrl = new_controller, effects = [Enqueue text_hi] \<rparr>"
  define chunk where "chunk = text_null_length @ ''\<newline>\<newline>''"
  define s where "s = s0\<lparr> buffer := buffer s0 @ chunk \<rparr>"
  define evs where "evs = [ConsumerRead, Chunk (sse_event text_hi), Chunk ''data: '']"
  define err where "err = Thrown_OpenAIError
           \<lparr> type = MAX_TOKENS, message = ''Maximum number of tokens reached.'' \<rparr>"
  have h1: "mode opts_no_mode = None" by code_simp
  have h2: "indexOf (buffer s) ''\<newline>\<newline>'' = Some 69"
    unfolding s_def s0_def chunk_def by code_simp
  have h3: "\<not> bufferIsDone (slice_from (buffer s) (69 + 2))"
    unfolding s_def s0_def chunk_def by code_simp
  have h4: "parse_demo (trim (slice (buffer s) 5 69))
              = Some (JObj [(''choices'', JArr [choice_null, choice_length])])"
    unfolding s_def s0_def chunk_def by code_simp
  have h5: "opt_prop (Some (JObj [(''choices'', JArr [choice_null, choice_length])])) ''choices''
              = Some (JArr ([choice_null] @ choice_length # []))"
    by simp
  have h6: "\<forall>x\<in>set [choice_null]. finish_reason x \<noteq> Some (JStr ''stop'')"
    by (simp add: finish_reason_def choice_null_def)
  have h7: "finish_reason choice_length = Some (JStr ''length'')" by code_simp
  have r1: "consume parse_demo (mode_of opts_no_mode) (onDone opts_no_mode) evs new_framer
              = (Continue, s0)"
    unfolding s0_def evs_def by code_simp
  have r2: "\<not> bufferIsDone (buffer s0 @ chunk)"
    unfolding s0_def chunk_def by code_simp
  note T = omitted_mode_is_tokens
         [of opts_no_mode s 69 parse_demo
             "JObj [(''choices'', JArr [choice_null, choice_length])]"
             "[choice_null]" choice_length "[]" evs s0 chunk "[]",
          OF h1 h2 h3 h4 h5 h6 h7, folded err_def]
  from T have md: "mode_of opts_no_mode = Tokens" by (rule conjunct1)
  have pre: "consume parse_demo (mode_of opts_no_mode) (onDone opts_no_mode) evs new_framer
              = (Continue, s0)
            \<and> s = s0\<lparr> buffer := buffer s0 @ chunk \<rparr>
            \<and> \<not> bufferIsDone (buffer s0 @ chunk)"
    by (intro conjI r1 r2) (simp add: s_def)
  from T [THEN conjunct2, THEN conjunct2, THEN mp, OF pre]
  have c1: "fst (EventStream parse_demo opts_no_mode (evs @ Chunk chunk # [])) = Throw err"
    and c2: "state (ctrl (snd (EventStream parse_demo opts_no_mode (evs @ Chunk chunk # []))))
              = (if state (ctrl s0) = Readable then Errored err else state (ctrl s0))"
    and c3: "effects (snd (EventStream parse_demo opts_no_mode (evs @ Chunk chunk # [])))
              = effects s0"
    by blast+
  have st: "state (ctrl s0) = Readable" "effects s0 = [Enqueue text_hi]"
    by (simp_all add: s0_def new_controller_def)
  from c2 st(1)
  have c2': "state (ctrl (snd (EventStream parse_demo opts_no_mode (evs @ Chunk chunk # []))))
              = Errored err"
    by simp
  from c3 st(2)
  have c3': "effects (snd (EventStream parse_demo opts_no_mode (evs @ Chunk chunk # [])))
              = [Enqueue text_hi]"
    by simp
  from h1 md r1 r2 c1 c2' c3' show ?thesis
    unfolding s0_def chunk_def evs_def err_def by (intro conjI)
qed

text \<open>
  C10 as stated fails: with \<^verbatim>\<open>mode\<close> left out, an event whose second choice has
  \<^verbatim>\<open>finish_reason\<close> \<^verbatim>\<open>"length"\<close> and whose first has \<^verbatim>\<open>"stop"\<close> does not fail the stream;
  \<^verbatim>\<open>start\<close> returns and the stream is closed.
\<close>

theorem omitted_mode_stop_first_counterexample:
  "mode opts_no_mode = None
   \<and> parse_demo text_stop_length = Some (JObj [(''choices'', JArr [choice_stop, choice_length])])
   \<and> finish_reason choice_length = Some (JStr ''length'')
   \<and> EventStream parse_demo opts_no_mode [Chunk (sse_event text_stop_length)]
       = (Return,
          \<lparr> buffer = [],
            ctrl = \<lparr> state = Closed, queue = [], readRequests = 0, closeRequested = True \<rparr>,
            effects = [Close, OnDone] \<rparr>)"
  by code_simp

section \<open>Terminal signals\<close>

lemma end_shape_no_data: "end_shape od f tail \<Longrightarrow> filter is_data tail = []"
  by (cases f) (auto split: list.splits effect.splits)

lemma error_field_never_enqueues:
  assumes "map_of kvs ''error'' = Some err"
      and "(case check_error (JObj kvs) s of
              (Continue, s2) \<Rightarrow> enqueue_frame js s2
            | r \<Rightarrow> r) = (f, s')"
  shows "f = Throw RuntimeTypeError
       \<and> (effects s' = effects s \<or> (\<exists>u. effects s' = effects s @ [ControllerError u]))"
proof (cases "map_of kvs ''hasOwnProperty'' \<noteq> None")
  case True
  with assms show ?thesis by auto
next
  case nh: False
  show ?thesis
  proof (cases "err = JNull")
    case True
    with nh assms show ?thesis by auto
  next
    case False
    with nh assms(1) have
      "check_error (JObj kvs) s = (Continue,
          s\<lparr> ctrl := controller_error (UpstreamError (get_prop err ''message'')) (ctrl s),
             effects := effects s @ [ControllerError (UpstreamError (get_prop err ''message''))] \<rparr>)"
      by (cases err) simp_all
    with assms(2) show ?thesis by (auto simp: enqueue_after_error)
  qed
qed

lemma error_event_not_enqueued:
  assumes "parse js = Some (JObj kvs)" and "map_of kvs ''error'' \<noteq> None"
  shows "fst (process_candidate parse md od js s) \<noteq> Continue
       \<and> filter is_data (effects (snd (process_candidate parse md od js s)))
           = filter is_data (effects s)"
proof -
  obtain err where err: "map_of kvs ''error'' = Some err" using assms(2) by blast
  obtain f1 s1 where c: "check_choices md od (JObj kvs) s = (f1, s1)" by fastforce
  from check_choices_shape [OF c] show ?thesis
  proof
    assume a: "f1 = Continue \<and> s1 = s"
    obtain f s' where r: "(case check_error (JObj kvs) s of
              (Continue, s2) \<Rightarrow> enqueue_frame js s2
            | r \<Rightarrow> r) = (f, s')" by fastforce
    with a c assms(1) have "process_candidate parse md od js s = (f, s')"
      by (simp add: process_candidate_def)
    with error_field_never_enqueues [OF err r] show ?thesis by auto
  next
    assume a: "f1 \<noteq> Continue \<and> (\<exists>tail. effects s1 = effects s @ tail \<and> end_shape od f1 tail)"
    with c assms(1) have "process_candidate parse md od js s = (f1, s1)"
      by (auto simp: process_candidate_def split: flow.splits)
    with a end_shape_no_data [of od f1] show ?thesis by auto
  qed
qed

text \<open>
  C6. In every run of \<^verbatim>\<open>EventStream\<close> no frame is enqueued after a close, an error
  signal or the completion hook; once \<^verbatim>\<open>start\<close> has returned or thrown, nothing that
  the source still yields changes the outcome; and an event that has an \<^verbatim>\<open>error\<close> field
  ends the run without a frame, its own payload included.
\<close>

theorem no_frame_after_terminal:
  "no_data_after_end (effects (snd (EventStream parse options evs)))
   \<and> (fst (EventStream parse options evs) \<noteq> Continue \<longrightarrow>
        EventStream parse options (evs @ rest) = EventStream parse options evs)
   \<and> (parse js = Some (JObj kvs) \<and> map_of kvs ''error'' \<noteq> None \<longrightarrow>
        fst (process_candidate parse md od js s) \<noteq> Continue
      \<and> filter is_data (effects (snd (process_candidate parse md od js s)))
          = filter is_data (effects s))"
proof (intro conjI impI)
  from EventStream_shape [of parse options evs]
  obtain ds tail where "effects (snd (EventStream parse options evs)) = map Enqueue ds @ tail"
    "end_shape (onDone options) (fst (EventStream parse options evs)) tail" by blast
  then show "no_data_after_end (effects (snd (EventStream parse options evs)))"
    using no_data_after_end_shape by simp
next
  assume "fst (EventStream parse options evs) \<noteq> Continue"
  then show "EventStream parse options (evs @ rest) = EventStream parse options evs"
    by (rule EventStream_stops)
next
  assume a: "parse js = Some (JObj kvs) \<and> map_of kvs ''error'' \<noteq> None"
  then show "fst (process_candidate parse md od js s) \<noteq> Continue"
    using error_event_not_enqueued [of parse js kvs md od s] by simp
  from a show "filter is_data (effects (snd (process_candidate parse md od js s)))
          = filter is_data (effects s)"
    using error_event_not_enqueued [of parse js kvs md od s] by simp
qed

theorem no_frame_after_terminal_witness:
  "no_data_after_end
     (effects (snd (EventStream parse_demo opts_tokens
        [Chunk (sse_event text_hi), Chunk (sse_event text_error)])))
   \<and> effects (snd (EventStream parse_demo opts_tokens
        [Chunk (sse_event text_hi), Chunk (sse_event text_error)]))
       = [Enqueue text_hi, ControllerError (UpstreamError (Some (JStr ''boom'')))]
   \<and> fst (EventStream parse_demo opts_tokens
        [Chunk (sse_event text_hi), Chunk (sse_event text_error)]) \<noteq> Continue
   \<and> EventStream parse_demo opts_tokens
        ([Chunk (sse_event text_hi), Chunk (sse_event text_error)] @ [Chunk (sse_event text_hi)])
       = EventStream parse_demo opts_tokens
           [Chunk (sse_event text_hi), Chunk (sse_event text_error)]
   \<and> parse_demo text_error = Some (JObj [(''error'', JObj [(''message'', JStr ''boom'')])])
   \<and> map_of [(''error'', JObj [(''message'', JStr ''boom'')])] ''error'' \<noteq> None
   \<and> fst (process_candidate parse_demo Tokens True text_error new_framer) \<noteq> Continue
   \<and> filter is_data (effects (snd (process_candidate parse_demo Tokens True text_error new_framer)))
       = filter is_data (effects new_framer)"
proof -
  have e1: "effects (snd (EventStream parse_demo opts_tokens
        [Chunk (sse_event text_hi), Chunk (sse_event text_error)]))
       = [Enqueue text_hi, ControllerError (UpstreamError (Some (JStr ''boom'')))]"
    by code_simp
  have e2: "fst (EventStream parse_demo opts_tokens
        [Chunk (sse_event text_hi), Chunk (sse_event text_error)]) \<noteq> Continue"
    by code_simp
  have e3: "parse_demo text_error = Some (JObj [(''error'', JObj [(''message'', JStr ''boom'')])])"
    by code_simp
  have e4: "map_of [(''error'', JObj [(''message'', JStr ''boom'')])] ''error'' \<noteq> None"
    by simp
  from no_frame_after_terminal
         [of parse_demo opts_tokens "[Chunk (sse_event text_hi), Chunk (sse_event text_error)]"
             "[Chunk (sse_event text_hi)]" text_error
             "[(''error'', JObj [(''message'', JStr ''boom'')])]" Tokens True new_framer]
  show ?thesis
    using e1 e2 e3 e4 by simp
qed

section \<open>The completion hook\<close>

text \<open>
  In every run the hook runs only when \<^verbatim>\<open>start\<close> returns through its close routine, and
  then once; \<^verbatim>\<open>close()\<close> is called at most once, only on that return, and never on a
  stream that is closed or errored.
\<close>

lemma onDone_only_on_return:
  "count_list (effects (snd (EventStream parse options evs))) OnDone
     = (if onDone options \<and> fst (EventStream parse options evs) = Return then 1 else 0)
   \<and> count_list (effects (snd (EventStream parse options evs))) Close \<le> 1
   \<and> (Close \<in> set (effects (snd (EventStream parse options evs))) \<longrightarrow>
        fst (EventStream parse options evs) = Return)
   \<and> (state (ctrl s) \<noteq> Readable \<longrightarrow> closeController od s = (None, call_onDone od s))"
proof -
  from EventStream_shape [of parse options evs]
  obtain ds tail where sh: "effects (snd (EventStream parse options evs)) = map Enqueue ds @ tail"
    "end_shape (onDone options) (fst (EventStream parse options evs)) tail" by blast
  have "Close \<in> set (map Enqueue ds @ tail) \<longleftrightarrow> Close \<in> set tail" by auto
  with count_OnDone_shape [OF sh(2), of ds] count_Close_shape [OF sh(2), of ds] sh(1)
  have "count_list (effects (snd (EventStream parse options evs))) OnDone
     = (if onDone options \<and> fst (EventStream parse options evs) = Return then 1 else 0)"
    "count_list (effects (snd (EventStream parse options evs))) Close \<le> 1"
    "Close \<in> set (effects (snd (EventStream parse options evs))) \<longrightarrow>
        fst (EventStream parse options evs) = Return"
    by auto
  moreover have "state (ctrl s) \<noteq> Readable \<longrightarrow> closeController od s = (None, call_onDone od s)"
    by (auto simp: closeController_def desiredSize_def split: stream_state.splits)
  ultimately show ?thesis by blast
qed

text \<open>
  C9 (the code departs from it). The hook \<^verbatim>\<open>onDone\<close>, documented as the function to run
  at the end of a stream, is to run once at stream completion. When the source ends and
  neither the sentinel nor a \<^verbatim>\<open>finish_reason\<close> \<^verbatim>\<open>"stop"\<close> has come, the loop of \<^verbatim>\<open>start\<close>
  runs out and \<^verbatim>\<open>start\<close> completes without its close routine: the frame has been
  enqueued, the output is left readable and is never closed, and the hook never runs.
\<close>

theorem source_end_skips_onDone:
  "onDone opts_tokens
   \<and> EventStream parse_demo opts_tokens [ConsumerRead, Chunk (sse_event text_hi)]
      = (Continue,
         \<lparr> buffer = [],
           ctrl = \<lparr> state = Readable, queue = [], readRequests = 0, closeRequested = False \<rparr>,
           effects = [Enqueue text_hi] \<rparr>)
   \<and> count_list (effects (snd (EventStream parse_demo opts_tokens
         [ConsumerRead, Chunk (sse_event text_hi)]))) OnDone = 0
   \<and> count_list (effects (snd (EventStream parse_demo opts_tokens
         [ConsumerRead, Chunk (sse_event text_hi)]))) Close = 0"
  by code_simp

end
